theory Spec2Isabelle
  imports Complex_Main "HOL-Library.Word" "HOL-Library.Sublist"
begin

section \<open>Python strings and \<open>os.path\<close>\<close>

text \<open>
  The program is \<^verbatim>\<open>src/data_augmentation/augment_data_noise.py\<close>. Its two functions call
  \<^verbatim>\<open>os.path\<close>, PIL, numpy and \<^verbatim>\<open>json\<close>. The path functions are taken as a parameter
  (\<open>ospath\<close>), so that a statement can hold on every host, and CPython's \<^verbatim>\<open>posixpath\<close>
  is written out as the instance used on a POSIX host.
\<close>

definition backslash :: char where
  "backslash = CHR 0x5C"

text \<open>\<^verbatim>\<open>s.replace(a, b)\<close> for one-character \<open>a\<close> and \<open>b\<close>.\<close>

definition replace_char :: "char \<Rightarrow> char \<Rightarrow> string \<Rightarrow> string" where
  "replace_char a b s = map (\<lambda>c. if c = a then b else c) s"

text \<open>\<^verbatim>\<open>s.rfind(c)\<close>: the last index of \<open>c\<close>, or \<open>-1\<close>.\<close>

fun rfind :: "char \<Rightarrow> string \<Rightarrow> int" where
  "rfind c [] = -1"
| "rfind c (x # xs) =
     (let r = rfind c xs in if 0 \<le> r then r + 1 else if x = c then 0 else -1)"

text \<open>\<^verbatim>\<open>s[i:]\<close> and \<open>s[:i]\<close> for an index \<open>i \<ge> 0\<close>, and \<^verbatim>\<open>s[-2:]\<close>.\<close>

definition slice_from :: "int \<Rightarrow> string \<Rightarrow> string" where
  "slice_from i s = drop (nat i) s"

definition slice_to :: "int \<Rightarrow> string \<Rightarrow> string" where
  "slice_to i s = take (nat i) s"

definition last_two :: "string \<Rightarrow> string" where
  "last_two s = drop (length s - 2) s"

definition startswith_sep :: "string \<Rightarrow> bool" where
  "startswith_sep p = (case p of [] \<Rightarrow> False | c # _ \<Rightarrow> c = CHR ''/'')"

definition endswith_sep :: "string \<Rightarrow> bool" where
  "endswith_sep p = (case rev p of [] \<Rightarrow> False | c # _ \<Rightarrow> c = CHR ''/'')"

definition rstrip_sep :: "string \<Rightarrow> string" where
  "rstrip_sep p = rev (dropWhile (\<lambda>c. c = CHR ''/'') (rev p))"

text \<open>\<^verbatim>\<open>posixpath.join(a, *p)\<close>: an absolute component discards what came before it.\<close>

definition posix_join_step :: "string \<Rightarrow> string \<Rightarrow> string" where
  "posix_join_step path b =
     (if startswith_sep b then b
      else if path = [] \<or> endswith_sep path then path @ b
      else path @ ''/'' @ b)"

definition posix_join :: "string \<Rightarrow> string list \<Rightarrow> string" where
  "posix_join a p = foldl posix_join_step a p"

definition posix_basename :: "string \<Rightarrow> string" where
  "posix_basename p = slice_from (rfind CHR ''/'' p + 1) p"

definition posix_dirname :: "string \<Rightarrow> string" where
  "posix_dirname p =
     (let head = slice_to (rfind CHR ''/'' p + 1) p
      in if head \<noteq> [] \<and> head \<noteq> replicate (length head) CHR ''/''
         then rstrip_sep head else head)"

text \<open>
  \<^verbatim>\<open>genericpath._splitext\<close> with \<open>sep = '/'\<close>, no \<open>altsep\<close> and \<open>extsep = '.'\<close>: the extension
  starts at the last dot, unless only dots stand between the last separator and it. The
  source's \<^verbatim>\<open>while\<close> loop looks for a character other than a dot in that range.
\<close>

definition posix_splitext :: "string \<Rightarrow> string \<times> string" where
  "posix_splitext p =
     (let sepIndex = rfind CHR ''/'' p;
          dotIndex = rfind CHR ''.'' p
      in if sepIndex < dotIndex \<and>
            list_ex (\<lambda>c. c \<noteq> CHR ''.'')
              (take (nat (dotIndex - (sepIndex + 1))) (drop (nat (sepIndex + 1)) p))
         then (slice_to dotIndex p, slice_from dotIndex p)
         else (p, []))"

text \<open>\<^verbatim>\<open>s.split('/')\<close> and \<^verbatim>\<open>'/'.join(comps)\<close>.\<close>

fun split_sep :: "string \<Rightarrow> string list" where
  "split_sep [] = [[]]"
| "split_sep (c # cs) =
     (if c = CHR ''/'' then [] # split_sep cs
      else (case split_sep cs of [] \<Rightarrow> [[c]] | w # ws \<Rightarrow> (c # w) # ws))"

fun join_sep :: "string list \<Rightarrow> string" where
  "join_sep [] = []"
| "join_sep [w] = w"
| "join_sep (w # v # ws) = w @ ''/'' @ join_sep (v # ws)"

text \<open>
  \<^verbatim>\<open>posixpath.normpath\<close>: the loop over the components, with \<open>new_comps\<close> as the list it
  appends to and pops from, and the count of initial slashes (0, 1 or 2).
\<close>

definition initial_slashes :: "string \<Rightarrow> nat" where
  "initial_slashes path =
     (if \<not> startswith_sep path then 0
      else if take 2 path = ''//'' \<and> take 3 path \<noteq> ''///'' then 2 else 1)"

fun normpath_loop :: "nat \<Rightarrow> string list \<Rightarrow> string list \<Rightarrow> string list" where
  "normpath_loop ini new_comps [] = new_comps"
| "normpath_loop ini new_comps (cmp # comps) =
     (if cmp = [] \<or> cmp = ''.'' then normpath_loop ini new_comps comps
      else if cmp \<noteq> ''..'' \<or> (ini = 0 \<and> new_comps = []) \<or>
              (new_comps \<noteq> [] \<and> last new_comps = ''..'')
      then normpath_loop ini (new_comps @ [cmp]) comps
      else if new_comps \<noteq> [] then normpath_loop ini (butlast new_comps) comps
      else normpath_loop ini new_comps comps)"

definition posix_normpath :: "string \<Rightarrow> string" where
  "posix_normpath path =
     (if path = [] then ''.''
      else
        (let ini = initial_slashes path;
             comps = normpath_loop ini [] (split_sep path);
             path' = replicate ini CHR ''/'' @ join_sep comps
         in if path' = [] then ''.'' else path'))"

text \<open>
  A path that \<open>posix_normpath\<close> leaves as it is: no empty component, no \<^verbatim>\<open>.\<close> and no \<^verbatim>\<open>..\<close>,
  after at most one leading slash.
\<close>

definition plain_component :: "string \<Rightarrow> bool" where
  "plain_component c = (c \<noteq> [] \<and> c \<noteq> ''.'' \<and> c \<noteq> ''..'')"

definition normal_path :: "string \<Rightarrow> bool" where
  "normal_path p =
     (case split_sep p of
        [] \<Rightarrow> False
      | c # cs \<Rightarrow>
          if c = [] then cs \<noteq> [] \<and> list_all plain_component cs \<and> initial_slashes p = 1
          else list_all plain_component (c # cs))"

record ospath =
  path_join :: "string \<Rightarrow> string list \<Rightarrow> string"
  path_dirname :: "string \<Rightarrow> string"
  path_basename :: "string \<Rightarrow> string"
  path_splitext :: "string \<Rightarrow> string \<times> string"
  path_normpath :: "string \<Rightarrow> string"

definition posixpath :: ospath where
  "posixpath =
     \<lparr>path_join = posix_join, path_dirname = posix_dirname, path_basename = posix_basename,
      path_splitext = posix_splitext, path_normpath = posix_normpath\<rparr>"

text \<open>\<^verbatim>\<open>str(n)\<close> for a Python integer, as the f-strings of the diagnostics print it.\<close>

definition digit_char :: "nat \<Rightarrow> char" where
  "digit_char d = ''0123456789'' ! (d mod 10)"

fun digits :: "nat \<Rightarrow> string" where
  "digits n = (if n < 10 then [digit_char n] else digits (n div 10) @ [digit_char n])"

definition str_int :: "int \<Rightarrow> string" where
  "str_int i = (if i < 0 then CHR ''-'' # digits (nat (- i)) else digits (nat i))"

section \<open>numpy: 8-bit arrays and the noise\<close>

text \<open>
  \<^verbatim>\<open>np.array(image)\<close> of an 8-bit image (modes L, P, RGB, RGBA) is a \<^verbatim>\<open>uint8\<close> array; the
  elementwise operations do not look at the shape, so the array is its shape and its
  elements in row-major order. \<^verbatim>\<open>uint8 + uint8\<close> is \<^verbatim>\<open>uint8\<close> addition, which wraps.
\<close>

type_synonym uint8 = "8 word"

record ndarray =
  shape :: "nat list"
  data :: "uint8 list"

text \<open>
  \<^verbatim>\<open>.astype(np.uint8)\<close> of a float: the C conversion, which truncates towards zero; a
  value outside the 8-bit range keeps its low 8 bits (the wrap-around of the usual
  platforms, and what the specification describes).
\<close>

definition astype_uint8 :: "real \<Rightarrow> uint8" where
  "astype_uint8 x = word_of_int (if 0 \<le> x then \<lfloor>x\<rfloor> else \<lceil>x\<rceil>)"

text \<open>\<^verbatim>\<open>np.clip(a, a_min, a_max)\<close> is \<^verbatim>\<open>minimum(a_max, maximum(a, a_min))\<close>, here on \<^verbatim>\<open>uint8\<close>.\<close>

definition np_clip :: "uint8 \<Rightarrow> uint8 \<Rightarrow> uint8 \<Rightarrow> uint8" where
  "np_clip a_min a_max a = min a_max (max a a_min)"

text \<open>Lines 19-21: \<^verbatim>\<open>np.clip(image_array + noise, 0, 255)\<close>.\<close>

definition noisy_image_array :: "ndarray \<Rightarrow> uint8 list \<Rightarrow> ndarray" where
  "noisy_image_array image_array noise =
     image_array\<lparr>data := map (np_clip 0 255) (map2 (+) (data image_array) noise)\<rparr>"


section \<open>The data model\<close>

text \<open>
  The records are the dictionaries of the COCO file, typed as the specification's data
  model types them (integer ids): an \<open>ImageRecord\<close> is read at its four keys and may hold
  more, an \<open>AnnotationRecord\<close> has \<open>image_id\<close> and any other fields (the extension of the
  record), and the annotation set has \<open>images\<close>, \<open>annotations\<close> and what else the file held.
\<close>

record image_info =
  id' :: int
  file_name :: string
  width :: int
  height :: int

record annotation =
  image_id :: int

record ('im, 'an, 'x) coco =
  images :: "'im list"
  annotations :: "'an list"
  other :: 'x

type_synonym ('i, 'a, 'x) coco_in = "('i image_info_scheme, 'a annotation_scheme, 'x) coco"
type_synonym ('a, 'x) coco_out = "(image_info, 'a annotation_scheme, 'x) coco"

section \<open>The world: files, the random generator, standard output\<close>

datatype pyerr =
  FileNotFoundError | PermissionError | UnidentifiedImageError | JSONDecodeError
  | ValueError | OSError

text \<open>
  What the libraries do is not the program's: each call is a parameter that, given the
  world \<open>'w\<close>, returns a result or raises, and a call that raises leaves the world as it
  was. \<open>image_open\<close> is \<^verbatim>\<open>np.array(Image.open(path))\<close>, \<open>image_save\<close> is
  \<^verbatim>\<open>Image.fromarray(a).save(path)\<close>, \<open>standard_normal w n\<close> draws \<open>n\<close> standard normal
  samples (sample \<open>i\<close> of the draw is the function's value at \<open>i\<close>), \<open>json_load\<close> is
  \<^verbatim>\<open>json.load(open(path))\<close>, \<open>makedirs\<close> is \<^verbatim>\<open>os.makedirs(path, exist_ok=True)\<close> and
  \<open>json_dump\<close> is \<^verbatim>\<open>json.dump(data, open(path, "w"), indent=4)\<close>.
\<close>

record ('w, 'i, 'a, 'x) pyio =
  image_open :: "'w \<Rightarrow> string \<Rightarrow> pyerr + ndarray"
  standard_normal :: "'w \<Rightarrow> nat \<Rightarrow> (nat \<Rightarrow> real) \<times> 'w"
  image_save :: "'w \<Rightarrow> string \<Rightarrow> ndarray \<Rightarrow> pyerr + 'w"
  json_load :: "'w \<Rightarrow> string \<Rightarrow> pyerr + ('i, 'a, 'x) coco_in"
  makedirs :: "'w \<Rightarrow> string \<Rightarrow> pyerr + 'w"
  json_dump :: "'w \<Rightarrow> string \<Rightarrow> ('a, 'x) coco_out \<Rightarrow> pyerr + 'w"

record 'w proc =
  world :: 'w
  stdout :: "string list"

definition print :: "string \<Rightarrow> 'w proc \<Rightarrow> 'w proc" where
  "print line s = s\<lparr>stdout := stdout s @ [line]\<rparr>"

text \<open>
  \<^verbatim>\<open>np.random.normal(loc, scale, shape)\<close>: \<open>loc + scale * z\<close> for standard normal draws
  \<open>z\<close>, one per element; a negative \<open>scale\<close> raises \<^verbatim>\<open>ValueError\<close>.
\<close>

definition random_normal ::
  "('w, 'i, 'a, 'x) pyio \<Rightarrow> real \<Rightarrow> real \<Rightarrow> nat \<Rightarrow> 'w \<Rightarrow> pyerr + (real list \<times> 'w)" where
  "random_normal io loc scale n w =
     (if scale < 0 then Inl ValueError
      else (case standard_normal io w n of
              (z, w') \<Rightarrow> Inr (map (\<lambda>i. loc + scale * z i) [0..<n], w')))"

section \<open>\<open>add_noise_and_update_annotations\<close> (lines 7-42)\<close>

text \<open>
  The \<^verbatim>\<open>except FileNotFoundError\<close> clause of lines 40-42. It guards the whole body of the
  \<^verbatim>\<open>try\<close>, so it is applied at every call of the body that can raise.
\<close>

definition except_FileNotFoundError ::
  "pyerr \<Rightarrow> string \<Rightarrow> 'w proc \<Rightarrow> pyerr + ((string option \<times> 'b list) \<times> 'w proc)" where
  "except_FileNotFoundError e image_path s =
     (if e = FileNotFoundError
      then Inr ((None, []),
                print (''File not found: '' @ image_path @ ''. Skipping this image.'') s)
      else Inl e)"

definition add_noise_and_update_annotations ::
  "ospath \<Rightarrow> ('w, 'i, 'a, 'x) pyio \<Rightarrow> string \<Rightarrow> 'a annotation_scheme list \<Rightarrow> string \<Rightarrow> int \<Rightarrow>
   real \<Rightarrow> 'w proc \<Rightarrow> pyerr + ((string option \<times> 'a annotation_scheme list) \<times> 'w proc)" where
  "add_noise_and_update_annotations os io image_path anns output_dir new_image_id
     noise_factor s =
     (case image_open io (world s) image_path of
        Inl e \<Rightarrow> except_FileNotFoundError e image_path s
      | Inr image_array \<Rightarrow>
         (case random_normal io 0 noise_factor (length (data image_array)) (world s) of
            Inl e \<Rightarrow> except_FileNotFoundError e image_path s
          | Inr (samples, w1) \<Rightarrow>
             (let noise = map astype_uint8 samples;
                  noisy_image = noisy_image_array image_array noise;
                  noisy_image_name =
                    fst (path_splitext os (path_basename os image_path)) @
                    ''_augmented_noise.png'';
                  noisy_image_path = path_join os output_dir [noisy_image_name]
              in case image_save io w1 noisy_image_path noisy_image of
                   Inl e \<Rightarrow> except_FileNotFoundError e image_path (s\<lparr>world := w1\<rparr>)
                 | Inr w2 \<Rightarrow>
                     Inr ((Some noisy_image_path,
                           map (\<lambda>annotation. annotation\<lparr>image_id := new_image_id\<rparr>)
                             anns),
                          s\<lparr>world := w2\<rparr>))))"

section \<open>\<open>augment_coco_dataset\<close> (lines 45-113)\<close>

text \<open>Lines 54-58: the underscore and the last two letters of the file name's stem.\<close>

definition last_two_letters :: "ospath \<Rightarrow> string \<Rightarrow> string" where
  "last_two_letters os coco_json_path =
     (let base_name = path_basename os coco_json_path
      in ''_'' @ last_two (fst (path_splitext os base_name)))"

text \<open>Line 61, lines 109-111 and lines 71-77.\<close>

definition images_subdir :: "ospath \<Rightarrow> string \<Rightarrow> string \<Rightarrow> string" where
  "images_subdir os coco_json_path output_dir =
     path_join os output_dir [''images'' @ last_two_letters os coco_json_path]"

definition new_coco_json_path :: "ospath \<Rightarrow> string \<Rightarrow> string \<Rightarrow> string" where
  "new_coco_json_path os coco_json_path output_dir =
     path_join os output_dir
       [''augmented_noise'' @ last_two_letters os coco_json_path @ ''.json'']"

definition source_image_path :: "ospath \<Rightarrow> string \<Rightarrow> string \<Rightarrow> string" where
  "source_image_path os coco_json_path fname =
     replace_char backslash CHR ''/''
       (path_normpath os
          (path_join os (path_dirname os coco_json_path)
             [''images'' @ last_two_letters os coco_json_path, slice_from 7 fname]))"

text \<open>
  The same path as the specification words it, on a POSIX host: the three parts joined and
  every backslash replaced by a slash, with no call of \<^verbatim>\<open>normpath\<close>.
\<close>

definition stated_source_image_path :: "string \<Rightarrow> string \<Rightarrow> string" where
  "stated_source_image_path coco_json_path fname =
     replace_char backslash CHR ''/''
       (posix_join (posix_dirname coco_json_path)
          [''images_'' @ last_two (fst (posix_splitext (posix_basename coco_json_path))),
           drop 7 fname])"

text \<open>Lines 70-88 of the loop body: the call of \<open>add_noise_and_update_annotations\<close>.\<close>

definition inject_image ::
  "ospath \<Rightarrow> ('w, 'i, 'a, 'x) pyio \<Rightarrow> string \<Rightarrow> string \<Rightarrow> real \<Rightarrow> 'a annotation_scheme list \<Rightarrow>
   'i image_info_scheme \<Rightarrow> 'w proc \<Rightarrow>
   pyerr + ((string option \<times> 'a annotation_scheme list) \<times> 'w proc)" where
  "inject_image os io coco_json_path output_dir noise_factor coco_annotations image_info s =
     (let image_path = source_image_path os coco_json_path (file_name image_info);
          annotations = filter (\<lambda>ann. image_id ann = id' image_info) coco_annotations;
          new_image_id = id' image_info + 4200000
      in add_noise_and_update_annotations os io image_path annotations
           (images_subdir os coco_json_path output_dir) new_image_id noise_factor s)"

text \<open>Lines 69-102: the loop body, on the process state and the two lists it appends to.\<close>

definition process_image ::
  "ospath \<Rightarrow> ('w, 'i, 'a, 'x) pyio \<Rightarrow> string \<Rightarrow> string \<Rightarrow> real \<Rightarrow> 'a annotation_scheme list \<Rightarrow>
   'i image_info_scheme \<Rightarrow> 'w proc \<times> image_info list \<times> 'a annotation_scheme list \<Rightarrow>
   pyerr + ('w proc \<times> image_info list \<times> 'a annotation_scheme list)" where
  "process_image os io coco_json_path output_dir noise_factor coco_annotations image_info acc =
     (case acc of (s, new_images, new_annotations) \<Rightarrow>
       (case inject_image os io coco_json_path output_dir noise_factor coco_annotations
               image_info s of
          Inl e \<Rightarrow> Inl e
        | Inr ((noisy_image_path, updated_annotations), s1) \<Rightarrow>
           (case noisy_image_path of
              Some p \<Rightarrow>
                Inr (s1,
                     new_images @
                       [\<lparr>id' = id' image_info + 4200000,
                         file_name = ''images'' @ [backslash] @ path_basename os p,
                         width = width image_info,
                         height = height image_info\<rparr>],
                     new_annotations @ updated_annotations)
            | None \<Rightarrow>
                Inr (print (''Removing annotations for image ID: '' @
                            str_int (id' image_info)) s1,
                     new_images, new_annotations))))"

fun process_images ::
  "ospath \<Rightarrow> ('w, 'i, 'a, 'x) pyio \<Rightarrow> string \<Rightarrow> string \<Rightarrow> real \<Rightarrow> 'a annotation_scheme list \<Rightarrow>
   'i image_info_scheme list \<Rightarrow> 'w proc \<times> image_info list \<times> 'a annotation_scheme list \<Rightarrow>
   pyerr + ('w proc \<times> image_info list \<times> 'a annotation_scheme list)" where
  "process_images os io coco_json_path output_dir noise_factor coco_annotations [] acc = Inr acc"
| "process_images os io coco_json_path output_dir noise_factor coco_annotations
     (image_info # rest) acc =
     (case process_image os io coco_json_path output_dir noise_factor coco_annotations
             image_info acc of
        Inl e \<Rightarrow> Inl e
      | Inr acc' \<Rightarrow>
          process_images os io coco_json_path output_dir noise_factor coco_annotations rest acc')"

text \<open>
  Lines 46-111: everything up to the annotation set and the path that line 113 writes.
\<close>

definition augment_output ::
  "ospath \<Rightarrow> ('w, 'i, 'a, 'x) pyio \<Rightarrow> string \<Rightarrow> string \<Rightarrow> real \<Rightarrow> 'w proc \<Rightarrow>
   pyerr + ('w proc \<times> string \<times> ('a, 'x) coco_out)" where
  "augment_output os io coco_json_path output_dir noise_factor s =
     (case json_load io (world s) coco_json_path of
        Inl e \<Rightarrow> Inl e
      | Inr coco_data \<Rightarrow>
         (case makedirs io (world s) output_dir of
            Inl e \<Rightarrow> Inl e
          | Inr w1 \<Rightarrow>
             (case makedirs io w1 (images_subdir os coco_json_path output_dir) of
                Inl e \<Rightarrow> Inl e
              | Inr w2 \<Rightarrow>
                 (case process_images os io coco_json_path output_dir noise_factor
                         (annotations coco_data) (images coco_data)
                         (s\<lparr>world := w2\<rparr>, [], []) of
                    Inl e \<Rightarrow> Inl e
                  | Inr (s3, new_images, new_annotations) \<Rightarrow>
                      Inr (s3, new_coco_json_path os coco_json_path output_dir,
                           \<lparr>images = new_images, annotations = new_annotations,
                            other = other coco_data\<rparr>)))))"

definition augment_coco_dataset ::
  "ospath \<Rightarrow> ('w, 'i, 'a, 'x) pyio \<Rightarrow> string \<Rightarrow> string \<Rightarrow> real \<Rightarrow> 'w proc \<Rightarrow> pyerr + 'w proc" where
  "augment_coco_dataset os io coco_json_path output_dir noise_factor s =
     (case augment_output os io coco_json_path output_dir noise_factor s of
        Inl e \<Rightarrow> Inl e
      | Inr (s3, path, coco_data) \<Rightarrow>
         (case json_dump io (world s3) path coco_data of
            Inl e \<Rightarrow> Inl e
          | Inr w4 \<Rightarrow> Inr (s3\<lparr>world := w4\<rparr>)))"

text \<open>
  The images that survive a run: those for which, at their turn in the loop, a noisy image
  path was produced.
\<close>

fun survivors ::
  "ospath \<Rightarrow> ('w, 'i, 'a, 'x) pyio \<Rightarrow> string \<Rightarrow> string \<Rightarrow> real \<Rightarrow> 'a annotation_scheme list \<Rightarrow>
   'i image_info_scheme list \<Rightarrow> 'w proc \<Rightarrow> 'i image_info_scheme list" where
  "survivors os io coco_json_path output_dir noise_factor coco_annotations [] s = []"
| "survivors os io coco_json_path output_dir noise_factor coco_annotations (image_info # rest) s =
     (case inject_image os io coco_json_path output_dir noise_factor coco_annotations
             image_info s of
        Inl e \<Rightarrow> []
      | Inr ((Some p, updated_annotations), s1) \<Rightarrow>
          image_info #
          survivors os io coco_json_path output_dir noise_factor coco_annotations rest s1
      | Inr ((None, updated_annotations), s1) \<Rightarrow>
          survivors os io coco_json_path output_dir noise_factor coco_annotations rest
            (print (''Removing annotations for image ID: '' @ str_int (id' image_info)) s1))"

text \<open>The survivors of a whole run: the loop starts after the file is read and the two
  directories are made.\<close>

definition run_survivors ::
  "ospath \<Rightarrow> ('w, 'i, 'a, 'x) pyio \<Rightarrow> string \<Rightarrow> string \<Rightarrow> real \<Rightarrow> 'w proc \<Rightarrow>
   'i image_info_scheme list" where
  "run_survivors os io coco_json_path output_dir noise_factor s =
     (case json_load io (world s) coco_json_path of
        Inl e \<Rightarrow> []
      | Inr coco_data \<Rightarrow>
         (case makedirs io (world s) output_dir of
            Inl e \<Rightarrow> []
          | Inr w1 \<Rightarrow>
             (case makedirs io w1 (images_subdir os coco_json_path output_dir) of
                Inl e \<Rightarrow> []
              | Inr w2 \<Rightarrow>
                  survivors os io coco_json_path output_dir noise_factor
                    (annotations coco_data) (images coco_data) (s\<lparr>world := w2\<rparr>))))"

text \<open>The path line 28 builds for the noisy image of an input record, and the record
  lines 93-98 build for it.\<close>

definition noisy_path_of :: "ospath \<Rightarrow> string \<Rightarrow> string \<Rightarrow> string \<Rightarrow> string" where
  "noisy_path_of os coco_json_path output_dir fname =
     path_join os (images_subdir os coco_json_path output_dir)
       [fst (path_splitext os (path_basename os (source_image_path os coco_json_path fname))) @
        ''_augmented_noise.png'']"

definition noisy_image_info ::
  "ospath \<Rightarrow> string \<Rightarrow> string \<Rightarrow> 'i image_info_scheme \<Rightarrow> image_info" where
  "noisy_image_info os coco_json_path output_dir image_info =
     \<lparr>id' = id' image_info + 4200000,
      file_name = ''images'' @ [backslash] @
        path_basename os (noisy_path_of os coco_json_path output_dir (file_name image_info)),
      width = width image_info,
      height = height image_info\<rparr>"

section \<open>Lines 32-36 on a heap of objects\<close>

text \<open>
  Python's dictionaries and lists are objects behind references. To say what the loop of
  lines 32-36 does to the caller's objects, the heap is a list of objects, a reference is
  an index, and allocation appends. \<open>None\<close> is the \<^verbatim>\<open>TypeError\<close> or \<^verbatim>\<open>AttributeError\<close> of an
  object of the wrong kind.
\<close>

datatype 'a obj = DictObj "'a annotation_scheme" | ListObj "nat list"

type_synonym 'a heap = "'a obj list"

definition heap_alloc :: "'a heap \<Rightarrow> 'a obj \<Rightarrow> nat \<times> 'a heap" where
  "heap_alloc hp ob = (length hp, hp @ [ob])"

definition dict_at :: "'a heap \<Rightarrow> nat \<Rightarrow> 'a annotation_scheme option" where
  "dict_at hp r =
     (if r < length hp then (case hp ! r of DictObj d \<Rightarrow> Some d | ListObj rs \<Rightarrow> None) else None)"

definition list_at :: "'a heap \<Rightarrow> nat \<Rightarrow> nat list option" where
  "list_at hp r =
     (if r < length hp then (case hp ! r of DictObj d \<Rightarrow> None | ListObj rs \<Rightarrow> Some rs) else None)"

text \<open>\<^verbatim>\<open>annotation.copy()\<close>: a new dictionary with the same items.\<close>

definition dict_copy :: "'a heap \<Rightarrow> nat \<Rightarrow> (nat \<times> 'a heap) option" where
  "dict_copy hp r =
     (case dict_at hp r of None \<Rightarrow> None | Some d \<Rightarrow> Some (heap_alloc hp (DictObj d)))"

text \<open>\<^verbatim>\<open>new_annotation["image_id"] = new_image_id\<close>.\<close>

definition dict_set_image_id :: "'a heap \<Rightarrow> nat \<Rightarrow> int \<Rightarrow> 'a heap option" where
  "dict_set_image_id hp r v =
     (case dict_at hp r of
        None \<Rightarrow> None
      | Some d \<Rightarrow> Some (hp[r := DictObj (d\<lparr>image_id := v\<rparr>)]))"

text \<open>\<^verbatim>\<open>new_annotations.append(new_annotation)\<close>.\<close>

definition list_append :: "'a heap \<Rightarrow> nat \<Rightarrow> nat \<Rightarrow> 'a heap option" where
  "list_append hp l r =
     (case list_at hp l of None \<Rightarrow> None | Some rs \<Rightarrow> Some (hp[l := ListObj (rs @ [r])]))"

fun update_loop :: "'a heap \<Rightarrow> nat \<Rightarrow> int \<Rightarrow> nat list \<Rightarrow> 'a heap option" where
  "update_loop hp new_annotations new_image_id [] = Some hp"
| "update_loop hp new_annotations new_image_id (annotation # rest) =
     (case dict_copy hp annotation of
        None \<Rightarrow> None
      | Some (new_annotation, hp1) \<Rightarrow>
         (case dict_set_image_id hp1 new_annotation new_image_id of
            None \<Rightarrow> None
          | Some hp2 \<Rightarrow>
             (case list_append hp2 new_annotations new_annotation of
                None \<Rightarrow> None
              | Some hp3 \<Rightarrow> update_loop hp3 new_annotations new_image_id rest)))"

text \<open>Lines 32-38: the new list, the loop over the items of the caller's list, and the
  reference returned.\<close>

definition update_annotations_heap :: "'a heap \<Rightarrow> nat \<Rightarrow> int \<Rightarrow> (nat \<times> 'a heap) option" where
  "update_annotations_heap hp anns new_image_id =
     (case list_at hp anns of
        None \<Rightarrow> None
      | Some items \<Rightarrow>
         (case heap_alloc hp (ListObj []) of
            (new_annotations, hp0) \<Rightarrow>
              (case update_loop hp0 new_annotations new_image_id items of
                 None \<Rightarrow> None
               | Some hp' \<Rightarrow> Some (new_annotations, hp'))))"

section \<open>A small file system, for running the program\<close>

text \<open>
  One world the parameters can be: files by path, the directories that exist, and the
  stream of standard normal draws. Opening a path with no file raises
  \<^verbatim>\<open>FileNotFoundError\<close>, and so does writing into a directory that does not exist.
\<close>

datatype ('i, 'a, 'x) fs_file =
  ImageFile ndarray | JsonFile "('i, 'a, 'x) coco_in" | AugmentedJson "('a, 'x) coco_out"

record ('i, 'a, 'x) fs =
  files :: "string \<Rightarrow> ('i, 'a, 'x) fs_file option"
  dirs :: "string list"
  gauss :: "nat \<Rightarrow> real"

definition fs_image_open :: "('i, 'a, 'x) fs \<Rightarrow> string \<Rightarrow> pyerr + ndarray" where
  "fs_image_open w path =
     (case files w path of
        None \<Rightarrow> Inl FileNotFoundError
      | Some (ImageFile a) \<Rightarrow> Inr a
      | Some (JsonFile c) \<Rightarrow> Inl UnidentifiedImageError
      | Some (AugmentedJson c) \<Rightarrow> Inl UnidentifiedImageError)"

definition fs_write :: "('i, 'a, 'x) fs \<Rightarrow> string \<Rightarrow> ('i, 'a, 'x) fs_file \<Rightarrow> pyerr + ('i, 'a, 'x) fs" where
  "fs_write w path f =
     (if List.member (dirs w) (posix_dirname path)
      then Inr (w\<lparr>files := (files w)(path := Some f)\<rparr>)
      else Inl FileNotFoundError)"

definition fs_json_load :: "('i, 'a, 'x) fs \<Rightarrow> string \<Rightarrow> pyerr + ('i, 'a, 'x) coco_in" where
  "fs_json_load w path =
     (case files w path of
        None \<Rightarrow> Inl FileNotFoundError
      | Some (JsonFile c) \<Rightarrow> Inr c
      | Some (ImageFile a) \<Rightarrow> Inl JSONDecodeError
      | Some (AugmentedJson c) \<Rightarrow> Inl JSONDecodeError)"

definition fs_io :: "(('i, 'a, 'x) fs, 'i, 'a, 'x) pyio" where
  "fs_io =
     \<lparr>image_open = fs_image_open,
      standard_normal = (\<lambda>w n. (gauss w, w\<lparr>gauss := (\<lambda>i. gauss w (i + n))\<rparr>)),
      image_save = (\<lambda>w path a. fs_write w path (ImageFile a)),
      json_load = fs_json_load,
      makedirs = (\<lambda>w path. Inr (w\<lparr>dirs := path # dirs w\<rparr>)),
      json_dump = (\<lambda>w path c. fs_write w path (AugmentedJson c))\<rparr>"

text \<open>
  A run on this file system: \<^verbatim>\<open>data/frames_DK.json\<close> lists two images and three annotations
  whose extension is a bounding box; \<^verbatim>\<open>a.png\<close> is on disk and \<^verbatim>\<open>b.png\<close> is not. Every
  standard normal draw is 5, so with noise factor 20 every noise sample is 100.
\<close>

definition demo_pixels :: ndarray where
  "demo_pixels = \<lparr>shape = [1, 2], data = [200, 7]\<rparr>"

definition demo_set :: "(unit, int list, string) coco_in" where
  "demo_set =
     \<lparr>images =
        [\<lparr>id' = 1, file_name = ''images/a.png'', width = 100, height = 80\<rparr>,
         \<lparr>id' = 2, file_name = ''images/b.png'', width = 64, height = 48\<rparr>],
      annotations =
        [\<lparr>image_id = 1, \<dots> = [0, 0, 10, 10]\<rparr>,
         \<lparr>image_id = 2, \<dots> = [5, 5, 20, 20]\<rparr>,
         \<lparr>image_id = 1, \<dots> = [3, 4, 5, 6]\<rparr>],
      other = ''info''\<rparr>"

definition demo_world :: "(unit, int list, string) fs" where
  "demo_world =
     \<lparr>files = (\<lambda>p. if p = ''data/frames_DK.json'' then Some (JsonFile demo_set)
                   else if p = ''data/images_DK/a.png'' then Some (ImageFile demo_pixels)
                   else None),
      dirs = [''data'', ''data/images_DK''],
      gauss = (\<lambda>i. 5)\<rparr>"

definition demo_start :: "(unit, int list, string) fs proc" where
  "demo_start = \<lparr>world = demo_world, stdout = []\<rparr>"

definition demo_out :: "(int list, string) coco_out" where
  "demo_out =
     \<lparr>images =
        [\<lparr>id' = 4200001, file_name = ''images'' @ [backslash] @ ''a_augmented_noise.png'',
          width = 100, height = 80\<rparr>],
      annotations =
        [\<lparr>image_id = 4200001, \<dots> = [0, 0, 10, 10]\<rparr>,
         \<lparr>image_id = 4200001, \<dots> = [3, 4, 5, 6]\<rparr>],
      other = ''info''\<rparr>"

text \<open>What a run shows: the lines printed, with the result.\<close>

definition observe :: "pyerr + ('w proc \<times> 'r) \<Rightarrow> pyerr + (string list \<times> 'r)" where
  "observe r = (case r of Inl e \<Rightarrow> Inl e | Inr (s, x) \<Rightarrow> Inr (stdout s, x))"

definition observe_inject ::
  "pyerr + ('r \<times> 'w proc) \<Rightarrow> pyerr + ('r \<times> string list)" where
  "observe_inject r = (case r of Inl e \<Rightarrow> Inl e | Inr (x, s) \<Rightarrow> Inr (x, stdout s))"

text \<open>The state in which the loop of that run starts: the two output directories exist.\<close>

definition demo_loop_start :: "(unit, int list, string) fs proc" where
  "demo_loop_start =
     \<lparr>world = demo_world\<lparr>dirs := ''out/images_DK'' # ''out'' # dirs demo_world\<rparr>, stdout = []\<rparr>"

text \<open>
  A second input for the same disk: two image records share the id 1; the file of the
  first is missing and the file of the second is there.
\<close>

definition dup_set :: "(unit, int list, string) coco_in" where
  "dup_set =
     \<lparr>images =
        [\<lparr>id' = 1, file_name = ''images/b.png'', width = 64, height = 48\<rparr>,
         \<lparr>id' = 1, file_name = ''images/a.png'', width = 100, height = 80\<rparr>],
      annotations = [\<lparr>image_id = 1, \<dots> = [0, 0, 10, 10]\<rparr>],
      other = ''info''\<rparr>"

definition dup_start :: "(unit, int list, string) fs proc" where
  "dup_start =
     \<lparr>world = demo_world\<lparr>files := (files demo_world)(''data/frames_DK.json'' := Some (JsonFile dup_set))\<rparr>,
      stdout = []\<rparr>"

definition dup_out :: "(int list, string) coco_out" where
  "dup_out =
     \<lparr>images =
        [\<lparr>id' = 4200001, file_name = ''images'' @ [backslash] @ ''a_augmented_noise.png'',
          width = 100, height = 80\<rparr>],
      annotations = [\<lparr>image_id = 4200001, \<dots> = [0, 0, 10, 10]\<rparr>],
      other = ''info''\<rparr>"

text \<open>
  A third disk for the first input (distinct ids): \<^verbatim>\<open>b.png\<close> exists but is not an image, so
  opening it raises \<^verbatim>\<open>UnidentifiedImageError\<close>.
\<close>

definition bad_start :: "(unit, int list, string) fs proc" where
  "bad_start =
     \<lparr>world = demo_world\<lparr>files :=
                (files demo_world)(''data/images_DK/b.png'' := Some (JsonFile demo_set))\<rparr>,
      stdout = []\<rparr>"

definition bad_loop_start :: "(unit, int list, string) fs proc" where
  "bad_loop_start =
     \<lparr>world = (world bad_start)\<lparr>dirs := ''out/images_DK'' # ''out'' # dirs (world bad_start)\<rparr>,
      stdout = []\<rparr>"

text \<open>A heap with the two annotations of image 1 and, at reference 2, the list of them.\<close>

definition demo_heap :: "int list heap" where
  "demo_heap =
     [DictObj \<lparr>image_id = 1, \<dots> = [0, 0, 10, 10]\<rparr>,
      DictObj \<lparr>image_id = 1, \<dots> = [3, 4, 5, 6]\<rparr>,
      ListObj [0, 1]]"

text \<open>The file at a path after a run on the small file system.\<close>

definition written ::
  "pyerr + ('i, 'a, 'x) fs proc \<Rightarrow> string \<Rightarrow> ('i, 'a, 'x) fs_file option" where
  "written r path = (case r of Inl e \<Rightarrow> None | Inr s \<Rightarrow> files (world s) path)"

section \<open>The noise (lines 16-21)\<close>

lemma np_clip_uint8: "np_clip 0 255 x = x"
proof -
  have "(255 :: uint8) = - 1" by simp
  then have "x \<le> 255" by (metis word_n1_ge)
  then show ?thesis by (simp add: np_clip_def min_def max_def)
qed

lemma noisy_data: "data (noisy_image_array a noise) = map2 (+) (data a) noise"
  by (simp add: noisy_image_array_def np_clip_uint8 map_idI)

lemma noisy_pixel:
  "i < length (data a) \<Longrightarrow> length noise = length (data a) \<Longrightarrow>
   uint (data (noisy_image_array a noise) ! i) = (uint (data a ! i) + uint (noise ! i)) mod 256"
  by (simp add: noisy_data uint_word_ariths)

lemma map2_add_zero:
  "length ns = length xs \<Longrightarrow> \<forall>n \<in> set ns. n = 0 \<Longrightarrow> map2 (+) xs ns = (xs :: uint8 list)"
  by (induction xs ns rule: list_induct2') auto


lemma noise_zero:
  assumes "random_normal io 0 0 (length (data image_array)) w = Inr (samples, w')"
  shows "noisy_image_array image_array (map astype_uint8 samples) = image_array"
proof -
  obtain z w1 where zw: "standard_normal io w (length (data image_array)) = (z, w1)"
    by (cases "standard_normal io w (length (data image_array))")
  from assms zw have s: "samples = map (\<lambda>i. 0) [0..<length (data image_array)]"
    by (simp add: random_normal_def)
  have "map2 (+) (data image_array) (map astype_uint8 samples) = data image_array"
    by (rule map2_add_zero) (simp_all add: s astype_uint8_def)
  then show ?thesis
    by (simp add: noisy_image_array_def np_clip_uint8 map_idI)
qed

lemma demo_zero_written:
  "(case add_noise_and_update_annotations posixpath fs_io ''data/images_DK/a.png''
           (annotations demo_set) ''out/images_DK'' 4200001 0 demo_loop_start of
      Inl e \<Rightarrow> None
    | Inr (r, s) \<Rightarrow> files (world s) ''out/images_DK/a_augmented_noise.png'') =
   Some (ImageFile demo_pixels)"
  by code_simp

text \<open>
  Claim C6. With noise factor 0 the noisy pixel array is the decoded input array: every
  sample is \<open>0 + 0 * z\<close>, its cast is 0, and adding 0 and clipping change nothing. So
  \<open>add_noise_and_update_annotations\<close> saves the very array it decoded.
\<close>

theorem zero_noise_identity:
  assumes "image_open io (world s) image_path = Inr image_array"
      and "random_normal io 0 0 (length (data image_array)) (world s) = Inr (samples, w1)"
      and "noisy_image_path =
             path_join os output_dir
               [fst (path_splitext os (path_basename os image_path)) @ ''_augmented_noise.png'']"
  shows "noisy_image_array image_array (map astype_uint8 samples) = image_array
       \<and> add_noise_and_update_annotations os io image_path anns output_dir new_image_id 0 s =
           (case image_save io w1 noisy_image_path image_array of
              Inl e \<Rightarrow> except_FileNotFoundError e image_path (s\<lparr>world := w1\<rparr>)
            | Inr w2 \<Rightarrow>
                Inr ((Some noisy_image_path, map (\<lambda>a. a\<lparr>image_id := new_image_id\<rparr>) anns),
                     s\<lparr>world := w2\<rparr>))"
  using assms(1,2) noise_zero [OF assms(2)] unfolding assms(3)
  by (simp add: add_noise_and_update_annotations_def Let_def)

theorem zero_noise_identity_witness:
  "image_open fs_io (world demo_loop_start) ''data/images_DK/a.png'' = Inr demo_pixels
   \<and> noisy_image_array demo_pixels (map astype_uint8 [0, 0]) = demo_pixels
   \<and> (case add_noise_and_update_annotations posixpath fs_io ''data/images_DK/a.png''
           (annotations demo_set) ''out/images_DK'' 4200001 0 demo_loop_start of
         Inl e \<Rightarrow> None
       | Inr (r, s) \<Rightarrow> files (world s) ''out/images_DK/a_augmented_noise.png'') =
       Some (ImageFile demo_pixels)"
proof -
  let ?w1 = "(world demo_loop_start)\<lparr>gauss :=
               (\<lambda>i. gauss (world demo_loop_start) (i + length (data demo_pixels)))\<rparr>"
  have o: "image_open fs_io (world demo_loop_start) ''data/images_DK/a.png'' = Inr demo_pixels"
    by code_simp
  have h: "random_normal fs_io 0 0 (length (data demo_pixels)) (world demo_loop_start) =
     Inr ([0, 0], ?w1)"
    by (simp add: random_normal_def fs_io_def demo_pixels_def upt_rec)
  have p: "''out/images_DK/a_augmented_noise.png'' =
      path_join posixpath ''out/images_DK''
        [fst (path_splitext posixpath (path_basename posixpath ''data/images_DK/a.png'')) @
         ''_augmented_noise.png'']"
    by code_simp
  from zero_noise_identity [OF o h p] o demo_zero_written show ?thesis
    by (simp only: simp_thms)
qed

section \<open>One call, one image, the loop\<close>

lemma except_cases:
  "except_FileNotFoundError e image_path s = Inr ((po, u), s') \<Longrightarrow>
   e = FileNotFoundError \<and> po = None \<and> u = [] \<and>
   s' = print (''File not found: '' @ image_path @ ''. Skipping this image.'') s"
  by (auto simp: except_FileNotFoundError_def split: if_splits)

lemma add_noise_Some:
  assumes "add_noise_and_update_annotations os io image_path anns output_dir new_image_id
             noise_factor s = Inr ((Some p, updated), s')"
  shows "updated = map (\<lambda>a. a\<lparr>image_id := new_image_id\<rparr>) anns"
    and "p = path_join os output_dir
               [fst (path_splitext os (path_basename os image_path)) @ ''_augmented_noise.png'']"
    and "stdout s' = stdout s"
  using assms
  by (auto simp: add_noise_and_update_annotations_def Let_def
           split: sum.splits prod.splits dest!: except_cases)

lemma add_noise_None:
  assumes "add_noise_and_update_annotations os io image_path anns output_dir new_image_id
             noise_factor s = Inr ((None, updated), s')"
  shows "updated = []"
    and "stdout s' = stdout s @ [''File not found: '' @ image_path @ ''. Skipping this image.'']"
  using assms
  by (auto simp: add_noise_and_update_annotations_def Let_def print_def
           split: sum.splits prod.splits dest!: except_cases)

lemma inject_image_Some:
  assumes "inject_image os io jp od nf anns im s = Inr ((Some p, updated), s')"
  shows "updated = map (\<lambda>a. a\<lparr>image_id := id' im + 4200000\<rparr>)
                     (filter (\<lambda>a. image_id a = id' im) anns)"
    and "p = noisy_path_of os jp od (file_name im)"
    and "stdout s' = stdout s"
  using assms add_noise_Some [of os io "source_image_path os jp (file_name im)"
      "filter (\<lambda>a. image_id a = id' im) anns" "images_subdir os jp od" "id' im + 4200000" nf s
      p updated s']
  by (simp_all add: inject_image_def noisy_path_of_def)

lemma inject_image_None:
  assumes "inject_image os io jp od nf anns im s = Inr ((None, updated), s')"
  shows "updated = []"
  using assms add_noise_None(1) by (fastforce simp: inject_image_def)

lemma process_image_Some:
  assumes "inject_image os io jp od nf anns im s = Inr ((Some p, updated), s')"
  shows "process_image os io jp od nf anns im (s, I, A) =
           Inr (s', I @ [noisy_image_info os jp od im],
                A @ map (\<lambda>a. a\<lparr>image_id := id' im + 4200000\<rparr>)
                      (filter (\<lambda>a. image_id a = id' im) anns))"
  using assms inject_image_Some(1,2) [OF assms]
  by (simp add: process_image_def noisy_image_info_def)

lemma process_image_None:
  assumes "inject_image os io jp od nf anns im s = Inr ((None, updated), s')"
  shows "process_image os io jp od nf anns im (s, I, A) =
           Inr (print (''Removing annotations for image ID: '' @ str_int (id' im)) s', I, A)"
  using assms by (simp add: process_image_def)

lemma process_image_Inl:
  assumes "inject_image os io jp od nf anns im s = Inl e"
  shows "process_image os io jp od nf anns im (s, I, A) = Inl e"
  using assms by (simp add: process_image_def)

lemma process_images_result:
  "process_images os io jp od nf anns ims (s, I, A) = Inr (s', I', A') \<Longrightarrow>
   I' = I @ map (noisy_image_info os jp od) (survivors os io jp od nf anns ims s) \<and>
   A' = A @ concat (map (\<lambda>im. map (\<lambda>a. a\<lparr>image_id := id' im + 4200000\<rparr>)
                                 (filter (\<lambda>a. image_id a = id' im) anns))
                      (survivors os io jp od nf anns ims s))"
proof (induction ims arbitrary: s I A)
  case Nil
  then show ?case by simp
next
  case (Cons im ims)
  show ?case
  proof (cases "inject_image os io jp od nf anns im s")
    case (Inl e)
    with Cons.prems show ?thesis by (simp add: process_image_Inl)
  next
    case (Inr r)
    obtain po updated s1 where r: "r = ((po, updated), s1)" by (metis prod.exhaust)
    show ?thesis
    proof (cases po)
      case None
      with Inr r have inj: "inject_image os io jp od nf anns im s = Inr ((None, updated), s1)"
        by simp
      from Cons.prems have "process_images os io jp od nf anns ims
          (print (''Removing annotations for image ID: '' @ str_int (id' im)) s1, I, A) =
          Inr (s', I', A')"
        by (simp add: process_image_None [OF inj])
      from Cons.IH [OF this] inj show ?thesis by simp
    next
      case (Some p)
      with Inr r have inj: "inject_image os io jp od nf anns im s = Inr ((Some p, updated), s1)"
        by simp
      from Cons.prems have "process_images os io jp od nf anns ims
          (s1, I @ [noisy_image_info os jp od im],
           A @ map (\<lambda>a. a\<lparr>image_id := id' im + 4200000\<rparr>)
                 (filter (\<lambda>a. image_id a = id' im) anns)) = Inr (s', I', A')"
        by (simp add: process_image_Some [OF inj])
      from Cons.IH [OF this] inj show ?thesis by simp
    qed
  qed
qed

lemma survivors_subseq: "subseq (survivors os io jp od nf anns ims s) ims"
  by (induction ims arbitrary: s) (auto split: sum.splits option.splits prod.splits)

lemma augment_output_result:
  assumes "augment_output os io jp od nf s = Inr (s', path, out)"
      and "json_load io (world s) jp = Inr coco_data"
  shows "path = new_coco_json_path os jp od"
    and "other out = other coco_data"
    and "images out = map (noisy_image_info os jp od) (run_survivors os io jp od nf s)"
    and "annotations out =
           concat (map (\<lambda>im. map (\<lambda>a. a\<lparr>image_id := id' im + 4200000\<rparr>)
                               (filter (\<lambda>a. image_id a = id' im) (annotations coco_data)))
                    (run_survivors os io jp od nf s))"
  using assms
  by (auto simp: augment_output_def run_survivors_def split: sum.splits prod.splits
           dest!: process_images_result)

lemma run_survivors_subseq:
  "json_load io (world s) jp = Inr coco_data \<Longrightarrow>
   subseq (run_survivors os io jp od nf s) (images coco_data)"
  by (auto simp: run_survivors_def survivors_subseq split: sum.splits)

section \<open>The demo run\<close>

lemma demo_load: "json_load fs_io (world demo_start) ''data/frames_DK.json'' = Inr demo_set"
  by code_simp

lemma demo_run:
  "observe (augment_output posixpath fs_io ''data/frames_DK.json'' ''out'' 20 demo_start) =
   Inr ([''File not found: data/images_DK/b.png. Skipping this image.'',
         ''Removing annotations for image ID: 2''],
        ''out/augmented_noise_DK.json'', demo_out)"
  by code_simp

lemma demo_survivors:
  "run_survivors posixpath fs_io ''data/frames_DK.json'' ''out'' 20 demo_start =
   [\<lparr>id' = 1, file_name = ''images/a.png'', width = 100, height = 80\<rparr>]"
  by code_simp

lemma observe_Inr: "observe r = Inr (out, x) \<Longrightarrow> \<exists>s. r = Inr (s, x) \<and> stdout s = out"
  by (auto simp: observe_def split: sum.splits)

lemma demo_inject_a:
  "observe_inject (inject_image posixpath fs_io ''data/frames_DK.json'' ''out'' 20
      (annotations demo_set) (hd (images demo_set)) demo_loop_start) =
   Inr ((Some ''out/images_DK/a_augmented_noise.png'',
         [\<lparr>image_id = 4200001, \<dots> = [0, 0, 10, 10]\<rparr>,
          \<lparr>image_id = 4200001, \<dots> = [3, 4, 5, 6]\<rparr>]), [])"
  by code_simp

lemma observe_inject_Inr:
  "observe_inject r = Inr (x, out) \<Longrightarrow> \<exists>s. r = Inr (x, s) \<and> stdout s = out"
  by (auto simp: observe_inject_def split: sum.splits)

section \<open>The output of a run\<close>

lemma subseq_distinct_map:
  "subseq xs ys \<Longrightarrow> distinct (map f ys) \<Longrightarrow> distinct (map f xs)"
  using subseq_map [of xs ys f] subseqs_distinctD [of "map f xs" "map f ys"] by simp

lemma count_distinct_key:
  "distinct (map f xs) \<Longrightarrow> x \<in> set xs \<Longrightarrow> length (filter (\<lambda>y. f y = f x) xs) = 1"
proof (induction xs)
  case Nil
  then show ?case by simp
next
  case (Cons y ys)
  show ?case
  proof (cases "f y = f x")
    case True
    with Cons.prems have "\<forall>z \<in> set ys. f z \<noteq> f x" by (auto simp: image_iff)
    then have "filter (\<lambda>z. f z = f x) ys = []" by (simp add: filter_empty_conv)
    with True show ?thesis by simp
  next
    case False
    with Cons show ?thesis by auto
  qed
qed

lemma survivor_loaded:
  assumes "inject_image os io jp od nf anns im s = Inr ((Some p, updated), s')"
  shows "\<exists>a. image_open io (world s) (source_image_path os jp (file_name im)) = Inr a"
  using assms
  by (auto simp: inject_image_def add_noise_and_update_annotations_def Let_def
           split: sum.splits dest!: except_cases)

text \<open>
  Claim C1. When the image records of the input have pairwise distinct ids, every
  annotation record of the set that \<open>augment_coco_dataset\<close> writes has an \<open>image_id\<close> that is
  the id of exactly one image record of that set.
\<close>

theorem referential_integrity:
  assumes "augment_output os io jp od nf s = Inr (s', path, out)"
      and "json_load io (world s) jp = Inr coco_data"
      and "distinct (map id' (images coco_data))"
  shows "\<forall>a \<in> set (annotations out).
           length (filter (\<lambda>im. id' im = image_id a) (images out)) = 1"
proof
  fix a assume a: "a \<in> set (annotations out)"
  let ?S = "run_survivors os io jp od nf s"
  have d: "distinct (map id' ?S)"
    using run_survivors_subseq [OF assms(2)] assms(3) by (rule subseq_distinct_map)
  from a augment_output_result(4) [OF assms(1,2)]
  obtain im where im: "im \<in> set ?S" and ia: "image_id a = id' im + 4200000"
    by auto
  have "filter (\<lambda>om. id' om = image_id a) (images out) =
        map (noisy_image_info os jp od) (filter (\<lambda>x. id' x = id' im) ?S)"
    by (simp add: augment_output_result(3) [OF assms(1,2)] filter_map comp_def
          noisy_image_info_def ia)
  with count_distinct_key [OF d im] show
    "length (filter (\<lambda>im. id' im = image_id a) (images out)) = 1"
    by simp
qed

theorem referential_integrity_witness:
  "distinct (map id' (images demo_set)) \<and>
   list_all (\<lambda>a. length (filter (\<lambda>im. id' im = image_id a) (images demo_out)) = 1)
     (annotations demo_out)"
proof -
  obtain s' where run: "augment_output posixpath fs_io ''data/frames_DK.json'' ''out'' 20
      demo_start = Inr (s', ''out/augmented_noise_DK.json'', demo_out)"
    using observe_Inr [OF demo_run] by blast
  have d: "distinct (map id' (images demo_set))"
    by (simp add: demo_set_def)
  from referential_integrity [OF run demo_load d] d show ?thesis
    by (simp add: list_all_iff)
qed





section \<open>Images that cannot be found\<close>

lemma inject_image_not_found:
  assumes "image_open io (world s) (source_image_path os jp (file_name im)) = Inl FileNotFoundError"
  shows "inject_image os io jp od nf anns im s =
           Inr ((None, []),
                print (''File not found: '' @ source_image_path os jp (file_name im) @
                       ''. Skipping this image.'') s)"
  using assms
  by (simp add: inject_image_def add_noise_and_update_annotations_def
        except_FileNotFoundError_def)

lemma survivors_set: "set (survivors os io jp od nf anns ims s) \<subseteq> set ims"
proof
  fix x assume "x \<in> set (survivors os io jp od nf anns ims s)"
  with survivors_subseq [of os io jp od nf anns ims s] show "x \<in> set ims"
    by (rule list_emb_set) simp
qed

lemma survivors_append:
  "process_images os io jp od nf anns pre (s, I, A) = Inr (s1, I1, A1) \<Longrightarrow>
   survivors os io jp od nf anns (pre @ post) s =
   survivors os io jp od nf anns pre s @ survivors os io jp od nf anns post s1"
proof (induction pre arbitrary: s I A)
  case Nil
  then show ?case by simp
next
  case (Cons im pre)
  show ?case
  proof (cases "inject_image os io jp od nf anns im s")
    case (Inl e)
    with Cons.prems show ?thesis by (simp add: process_image_Inl)
  next
    case (Inr r)
    obtain po updated s2 where r: "r = ((po, updated), s2)" by (metis prod.exhaust)
    show ?thesis
    proof (cases po)
      case None
      with Inr r have inj: "inject_image os io jp od nf anns im s = Inr ((None, updated), s2)"
        by simp
      from Cons.prems have "process_images os io jp od nf anns pre
          (print (''Removing annotations for image ID: '' @ str_int (id' im)) s2, I, A) =
          Inr (s1, I1, A1)"
        by (simp add: process_image_None [OF inj])
      from Cons.IH [OF this] inj show ?thesis by simp
    next
      case (Some p)
      with Inr r have inj: "inject_image os io jp od nf anns im s = Inr ((Some p, updated), s2)"
        by simp
      from Cons.prems have "process_images os io jp od nf anns pre
          (s2, I @ [noisy_image_info os jp od im],
           A @ map (\<lambda>a. a\<lparr>image_id := id' im + 4200000\<rparr>)
                 (filter (\<lambda>a. image_id a = id' im) anns)) = Inr (s1, I1, A1)"
        by (simp add: process_image_Some [OF inj])
      from Cons.IH [OF this] inj show ?thesis by simp
    qed
  qed
qed

lemma dropped_not_survivor:
  assumes pre: "process_images os io jp od nf anns pre (s, I, A) = Inr (s1, I1, A1)"
      and nf: "image_open io (world s1) (source_image_path os jp (file_name im)) =
                 Inl FileNotFoundError"
      and d: "distinct (map id' (pre @ im # post))"
  shows "id' im \<notin> id' ` set (survivors os io jp od nf anns (pre @ im # post) s)"
proof -
  let ?s2 = "print (''Removing annotations for image ID: '' @ str_int (id' im))
               (print (''File not found: '' @ source_image_path os jp (file_name im) @
                       ''. Skipping this image.'') s1)"
  have "survivors os io jp od nf anns (pre @ im # post) s =
        survivors os io jp od nf anns pre s @ survivors os io jp od nf anns post ?s2"
    by (simp add: survivors_append [OF pre] inject_image_not_found [OF nf])
  moreover have "set (survivors os io jp od nf anns pre s) \<subseteq> set pre"
    and "set (survivors os io jp od nf anns post ?s2) \<subseteq> set post"
    by (rule survivors_set)+
  ultimately have "set (survivors os io jp od nf anns (pre @ im # post) s) \<subseteq> set pre \<union> set post"
    by auto
  moreover from d have "id' im \<notin> id' ` (set pre \<union> set post)"
    by auto
  ultimately show ?thesis by blast
qed

lemma absent_from_output:
  assumes "augment_output os io jp od nf s = Inr (s', path, out)"
      and "json_load io (world s) jp = Inr coco_data"
      and "K \<notin> id' ` set (run_survivors os io jp od nf s)"
  shows "K + 4200000 \<notin> id' ` set (images out)"
    and "K + 4200000 \<notin> image_id ` set (annotations out)"
  using assms(3) augment_output_result(3,4) [OF assms(1,2)]
  by (auto simp: noisy_image_info_def image_iff)


lemma demo_b_missing:
  "image_open fs_io (world demo_loop_start)
     (source_image_path posixpath ''data/frames_DK.json'' ''images/b.png'') =
   Inl FileNotFoundError"
  by code_simp

lemma demo_b_not_an_image:
  "image_open fs_io (world bad_loop_start)
     (source_image_path posixpath ''data/frames_DK.json'' ''images/b.png'') =
   Inl UnidentifiedImageError"
  by code_simp

lemma inject_image_raises:
  assumes "image_open io (world s) (source_image_path os jp (file_name im)) = Inl e"
      and "e \<noteq> FileNotFoundError"
  shows "inject_image os io jp od nf anns im s = Inl e"
  using assms
  by (simp add: inject_image_def add_noise_and_update_annotations_def
        except_FileNotFoundError_def)

text \<open>
  Claim C4, as amended. If opening the source image raises \<^verbatim>\<open>FileNotFoundError\<close> (the file
  cannot be located), then \<open>add_noise_and_update_annotations\<close> returns no image path and no
  annotations, prints its diagnostic and leaves the world as it is (no file is written);
  the loop adds nothing for that image, prints the diagnostic naming its id, and goes on
  with the remaining images. When the ids of the input images are pairwise distinct, the
  id of an image dropped at its turn is the id of no survivor. If opening the source image
  raises any other error (the file is there but cannot be opened or decoded), the error
  is not caught: it leaves \<open>add_noise_and_update_annotations\<close> and the loop, and the run
  ends without an output. For an id \<open>K\<close> that is the id of no survivor, the output has no
  image record with id \<open>K + 4200000\<close> and no annotation with that \<open>image_id\<close>.
  As stated the claim fails when another record with the same id survives, and when the
  image exists but cannot be opened.
\<close>

theorem drop_propagation:
  assumes "image_open io (world s) (source_image_path os jp (file_name im)) = Inl e"
  shows "(e = FileNotFoundError \<longrightarrow>
            add_noise_and_update_annotations os io (source_image_path os jp (file_name im))
              anns' dir new_image_id nf s =
              Inr ((None, []),
                   print (''File not found: '' @ source_image_path os jp (file_name im) @
                          ''. Skipping this image.'') s) \<and>
            process_images os io jp od nf anns (im # rest) (s, I, A) =
              process_images os io jp od nf anns rest
                (print (''Removing annotations for image ID: '' @ str_int (id' im))
                   (print (''File not found: '' @ source_image_path os jp (file_name im) @
                           ''. Skipping this image.'') s), I, A) \<and>
            (process_images os io jp od nf anns pre (s0, I0, A0) = Inr (s, I, A) \<and>
             distinct (map id' (pre @ im # rest)) \<longrightarrow>
             id' im \<notin> id' ` set (survivors os io jp od nf anns (pre @ im # rest) s0)))
       \<and> (e \<noteq> FileNotFoundError \<longrightarrow>
            add_noise_and_update_annotations os io (source_image_path os jp (file_name im))
              anns' dir new_image_id nf s = Inl e \<and>
            process_images os io jp od nf anns (im # rest) (s, I, A) = Inl e)
       \<and> (augment_output os io jp od nf s_in = Inr (s', path, out) \<and>
            json_load io (world s_in) jp = Inr coco_data \<and>
            K \<notin> id' ` set (run_survivors os io jp od nf s_in) \<longrightarrow>
            K + 4200000 \<notin> id' ` set (images out) \<and>
            K + 4200000 \<notin> image_id ` set (annotations out))"
proof (intro conjI impI)
  assume e: "e = FileNotFoundError"
  with assms have nf: "image_open io (world s) (source_image_path os jp (file_name im)) =
      Inl FileNotFoundError"
    by simp
  show "add_noise_and_update_annotations os io (source_image_path os jp (file_name im))
           anns' dir new_image_id nf s =
           Inr ((None, []),
                print (''File not found: '' @ source_image_path os jp (file_name im) @
                       ''. Skipping this image.'') s)"
    using nf
    by (simp add: add_noise_and_update_annotations_def except_FileNotFoundError_def)
  show "process_images os io jp od nf anns (im # rest) (s, I, A) =
           process_images os io jp od nf anns rest
             (print (''Removing annotations for image ID: '' @ str_int (id' im))
                (print (''File not found: '' @ source_image_path os jp (file_name im) @
                        ''. Skipping this image.'') s), I, A)"
    by (simp add: process_image_None [OF inject_image_not_found [OF nf]])
  assume "process_images os io jp od nf anns pre (s0, I0, A0) = Inr (s, I, A) \<and>
          distinct (map id' (pre @ im # rest))"
  then show "id' im \<notin> id' ` set (survivors os io jp od nf anns (pre @ im # rest) s0)"
    using dropped_not_survivor [of os io jp od nf anns pre s0 I0 A0 s I A im rest] nf
    by blast
next
  assume e: "e \<noteq> FileNotFoundError"
  show "add_noise_and_update_annotations os io (source_image_path os jp (file_name im))
           anns' dir new_image_id nf s = Inl e"
    using assms e
    by (simp add: add_noise_and_update_annotations_def except_FileNotFoundError_def)
  show "process_images os io jp od nf anns (im # rest) (s, I, A) = Inl e"
    by (simp add: process_image_Inl [OF inject_image_raises [OF assms e]])
next
  assume h: "augment_output os io jp od nf s_in = Inr (s', path, out) \<and>
          json_load io (world s_in) jp = Inr coco_data \<and>
          K \<notin> id' ` set (run_survivors os io jp od nf s_in)"
  then show "K + 4200000 \<notin> id' ` set (images out)"
    using absent_from_output(1) [of os io jp od nf s_in s' path out coco_data K] by blast
  from h show "K + 4200000 \<notin> image_id ` set (annotations out)"
    using absent_from_output(2) [of os io jp od nf s_in s' path out coco_data K] by blast
qed

theorem drop_propagation_witness:
  "image_open fs_io (world demo_loop_start)
     (source_image_path posixpath ''data/frames_DK.json''
        (file_name (\<lparr>id' = 2, file_name = ''images/b.png'', width = 64, height = 48\<rparr>))) =
     Inl FileNotFoundError
   \<and> observe_inject (add_noise_and_update_annotations posixpath fs_io
        (source_image_path posixpath ''data/frames_DK.json'' ''images/b.png'')
        (annotations demo_set) ''out/images_DK'' 4200002 20 demo_loop_start) =
       Inr ((None, []), [''File not found: data/images_DK/b.png. Skipping this image.''])
   \<and> 2 \<notin> id' ` set (survivors posixpath fs_io ''data/frames_DK.json'' ''out'' 20
             (annotations demo_set)
             [\<lparr>id' = 2, file_name = ''images/b.png'', width = 64, height = 48\<rparr>,
              \<lparr>id' = 1, file_name = ''images/a.png'', width = 100, height = 80\<rparr>]
             demo_loop_start)
   \<and> 2 + 4200000 \<notin> id' ` set (images demo_out)
   \<and> 2 + 4200000 \<notin> image_id ` set (annotations demo_out)
   \<and> image_open fs_io (world bad_loop_start)
        (source_image_path posixpath ''data/frames_DK.json''
           (file_name (\<lparr>id' = 2, file_name = ''images/b.png'', width = 64, height = 48\<rparr>))) =
       Inl UnidentifiedImageError
   \<and> add_noise_and_update_annotations posixpath fs_io
        (source_image_path posixpath ''data/frames_DK.json''
           (file_name (\<lparr>id' = 2, file_name = ''images/b.png'', width = 64, height = 48\<rparr>)))
        (annotations demo_set) ''out/images_DK'' 4200002 20 bad_loop_start =
       Inl UnidentifiedImageError
   \<and> process_images posixpath fs_io ''data/frames_DK.json'' ''out'' 20 (annotations demo_set)
        [\<lparr>id' = 2, file_name = ''images/b.png'', width = 64, height = 48\<rparr>,
         \<lparr>id' = 1, file_name = ''images/a.png'', width = 100, height = 80\<rparr>]
        (bad_loop_start, [], []) = Inl UnidentifiedImageError"
proof -
  let ?b = "\<lparr>id' = 2, file_name = ''images/b.png'', width = 64, height = 48\<rparr>"
  let ?a = "\<lparr>id' = 1, file_name = ''images/a.png'', width = 100, height = 80\<rparr>"
  have nf: "image_open fs_io (world demo_loop_start)
     (source_image_path posixpath ''data/frames_DK.json'' (file_name ?b)) = Inl FileNotFoundError"
    using demo_b_missing by simp
  have bad: "image_open fs_io (world bad_loop_start)
     (source_image_path posixpath ''data/frames_DK.json'' (file_name ?b)) =
     Inl UnidentifiedImageError"
    using demo_b_not_an_image by simp
  obtain s' where run: "augment_output posixpath fs_io ''data/frames_DK.json'' ''out'' 20
      demo_start = Inr (s', ''out/augmented_noise_DK.json'', demo_out)"
    using observe_Inr [OF demo_run] by blast
  have src: "source_image_path posixpath ''data/frames_DK.json'' ''images/b.png'' =
      ''data/images_DK/b.png''"
    by code_simp
  note t = drop_propagation [OF nf, where anns' = "annotations demo_set"
      and dir = "''out/images_DK''" and new_image_id = 4200002 and nf = 20 and od = "''out''"
      and anns = "annotations demo_set" and rest = "[?a]" and I = "[]" and A = "[]"
      and pre = "[]" and ?s0.0 = demo_loop_start and ?I0.0 = "[]" and ?A0.0 = "[]"
      and s_in = demo_start and s' = s' and path = "''out/augmented_noise_DK.json''"
      and out = demo_out and coco_data = demo_set and K = 2]
  note u = drop_propagation [OF bad, where anns' = "annotations demo_set"
      and dir = "''out/images_DK''" and new_image_id = 4200002 and nf = 20 and od = "''out''"
      and anns = "annotations demo_set" and rest = "[?a]" and I = "[]" and A = "[]"]
  have k: "2 \<notin> id' ` set (run_survivors posixpath fs_io ''data/frames_DK.json'' ''out'' 20
      demo_start)"
    by (simp add: demo_survivors)
  from u have 2: "add_noise_and_update_annotations posixpath fs_io
        (source_image_path posixpath ''data/frames_DK.json'' (file_name ?b))
        (annotations demo_set) ''out/images_DK'' 4200002 20 bad_loop_start =
       Inl UnidentifiedImageError
     \<and> process_images posixpath fs_io ''data/frames_DK.json'' ''out'' 20 (annotations demo_set)
        [?b, ?a] (bad_loop_start, [], []) = Inl UnidentifiedImageError"
    by simp
  from t nf run demo_load k have 1: "observe_inject (add_noise_and_update_annotations posixpath fs_io
        (source_image_path posixpath ''data/frames_DK.json'' ''images/b.png'')
        (annotations demo_set) ''out/images_DK'' 4200002 20 demo_loop_start) =
       Inr ((None, []), [''File not found: data/images_DK/b.png. Skipping this image.''])
   \<and> 2 \<notin> id' ` set (survivors posixpath fs_io ''data/frames_DK.json'' ''out'' 20
             (annotations demo_set) [?b, ?a] demo_loop_start)
   \<and> 2 + 4200000 \<notin> id' ` set (images demo_out)
   \<and> 2 + 4200000 \<notin> image_id ` set (annotations demo_out)"
    by (simp add: observe_inject_def print_def src demo_loop_start_def)
  from 1 2 nf bad show ?thesis
    by (simp only: simp_thms)
qed

theorem drop_propagation_counterexample:
  "id' (hd (images dup_set)) = 1 \<and>
   image_open fs_io (world dup_start)
     (source_image_path posixpath ''data/frames_DK.json'' (file_name (hd (images dup_set)))) =
     Inl FileNotFoundError \<and>
   json_load fs_io (world dup_start) ''data/frames_DK.json'' = Inr dup_set \<and>
   observe (augment_output posixpath fs_io ''data/frames_DK.json'' ''out'' 20 dup_start) =
     Inr ([''File not found: data/images_DK/b.png. Skipping this image.'',
           ''Removing annotations for image ID: 1''],
          ''out/augmented_noise_DK.json'', dup_out) \<and>
   map id' (images dup_out) = [1 + 4200000] \<and>
   map image_id (annotations dup_out) = [1 + 4200000] \<and>
   json_load fs_io (world bad_start) ''data/frames_DK.json'' = Inr demo_set \<and>
   distinct (map id' (images demo_set)) \<and>
   image_open fs_io (world bad_start)
     (source_image_path posixpath ''data/frames_DK.json'' ''images/b.png'') =
     Inl UnidentifiedImageError \<and>
   observe_inject
     (add_noise_and_update_annotations posixpath fs_io
        (source_image_path posixpath ''data/frames_DK.json'' ''images/b.png'')
        (annotations demo_set) ''out/images_DK'' 4200002 20 bad_start) =
     Inl UnidentifiedImageError \<and>
   observe (augment_output posixpath fs_io ''data/frames_DK.json'' ''out'' 20 bad_start) =
     Inl UnidentifiedImageError"
  by code_simp

section \<open>Errors other than a missing source image\<close>

lemma other_errors_propagate:
  assumes "e \<noteq> FileNotFoundError"
  shows "image_open io (world s) image_path = Inl e \<Longrightarrow>
         add_noise_and_update_annotations os io image_path anns output_dir new_image_id
           noise_factor s = Inl e"
    and "image_open io (world s) image_path = Inr a \<Longrightarrow>
         random_normal io 0 noise_factor (length (data a)) (world s) = Inr (samples, w1) \<Longrightarrow>
         image_save io w1
           (path_join os output_dir
              [fst (path_splitext os (path_basename os image_path)) @ ''_augmented_noise.png''])
           (noisy_image_array a (map astype_uint8 samples)) = Inl e \<Longrightarrow>
         add_noise_and_update_annotations os io image_path anns output_dir new_image_id
           noise_factor s = Inl e"
  using assms
  by (simp_all add: add_noise_and_update_annotations_def except_FileNotFoundError_def)

text \<open>
  Claim C5. Only a missing source image is handled: every other failure, errors of saving
  the noisy image included, propagates. An error of another kind does propagate
  (\<open>other_errors_propagate\<close>), but the \<^verbatim>\<open>try\<close> spans the save as well: when the source image
  loads and the output directory does not exist, saving raises \<^verbatim>\<open>FileNotFoundError\<close>, the
  clause catches it, reports the source image as not found and returns no path.
\<close>

theorem save_not_found_is_caught:
  "image_open fs_io (world demo_start) ''data/images_DK/a.png'' = Inr demo_pixels
   \<and> (case image_save fs_io demo_world ''missing/a_augmented_noise.png''
              (noisy_image_array demo_pixels [100, 100]) of
         Inl e \<Rightarrow> e = FileNotFoundError | Inr w \<Rightarrow> False)
   \<and> observe_inject
        (add_noise_and_update_annotations posixpath fs_io ''data/images_DK/a.png''
           (annotations demo_set) ''missing'' 4200001 20 demo_start) =
       Inr ((None, []), [''File not found: data/images_DK/a.png. Skipping this image.''])"
  by code_simp

section \<open>The caller's annotation objects\<close>

lemma upt_shift: "[m ..< m + Suc n] = m # [Suc m ..< Suc m + n]"
  using upt_conv_Cons [of m "m + Suc n"] by simp

lemma update_loop_Cons:
  assumes "dict_at hp r = Some d" and "list_at hp l = Some acc"
  shows "update_loop hp l v (r # rs) =
         update_loop ((hp @ [DictObj (d\<lparr>image_id := v\<rparr>)])[l := ListObj (acc @ [length hp])]) l v rs"
proof -
  from assms(2) have l: "l < length hp" and hl: "hp ! l = ListObj acc"
    by (auto simp: list_at_def split: if_splits obj.splits)
  have c: "dict_copy hp r = Some (length hp, hp @ [DictObj d])"
    using assms(1) by (simp add: dict_copy_def heap_alloc_def)
  have s: "dict_set_image_id (hp @ [DictObj d]) (length hp) v =
           Some (hp @ [DictObj (d\<lparr>image_id := v\<rparr>)])"
    by (simp add: dict_set_image_id_def dict_at_def)
  have a: "list_append (hp @ [DictObj (d\<lparr>image_id := v\<rparr>)]) l (length hp) =
           Some ((hp @ [DictObj (d\<lparr>image_id := v\<rparr>)])[l := ListObj (acc @ [length hp])])"
    using l hl by (simp add: list_append_def list_at_def nth_append)
  show ?thesis by (simp add: c s a)
qed

lemma update_loop_Some_Cons:
  assumes "update_loop hp l v (r # rs) = Some hp'"
  shows "\<exists>d acc. dict_at hp r = Some d \<and> list_at hp l = Some acc"
proof -
  from assms obtain d where d: "dict_at hp r = Some d"
    by (auto simp: dict_copy_def split: option.splits)
  have "list_at hp l \<noteq> None"
  proof
    assume n: "list_at hp l = None"
    have "list_at ((hp @ [DictObj d])[length hp := DictObj (d\<lparr>image_id := v\<rparr>)]) l = None"
      using n by (auto simp: list_at_def nth_append nth_list_update split: if_splits obj.splits)
    with assms d show False
      by (simp add: dict_copy_def heap_alloc_def dict_set_image_id_def dict_at_def
            list_append_def)
  qed
  with d show ?thesis by auto
qed

lemma update_loop_inv:
  assumes "update_loop hp l v rs = Some hp'" and "list_at hp l = Some acc"
  shows "length hp' = length hp + length rs
       \<and> (\<forall>r < length hp. r \<noteq> l \<longrightarrow> hp' ! r = hp ! r)
       \<and> list_at hp' l = Some (acc @ [length hp ..< length hp + length rs])
       \<and> (\<forall>i < length rs. rs ! i < length hp \<longrightarrow>
            dict_at hp' (length hp + i) =
            map_option (\<lambda>d. d\<lparr>image_id := v\<rparr>) (dict_at hp (rs ! i)))"
  using assms
proof (induction rs arbitrary: hp acc)
  case Nil
  then show ?case by simp
next
  case (Cons r rs)
  from update_loop_Some_Cons [OF Cons.prems(1)] Cons.prems(2)
  obtain d where d: "dict_at hp r = Some d" by auto
  let ?hp3 = "(hp @ [DictObj (d\<lparr>image_id := v\<rparr>)])[l := ListObj (acc @ [length hp])]"
  from Cons.prems(2) have l: "l < length hp"
    by (auto simp: list_at_def split: if_splits)
  have run: "update_loop ?hp3 l v rs = Some hp'"
    using Cons.prems(1) update_loop_Cons [OF d Cons.prems(2)] by simp
  have la: "list_at ?hp3 l = Some (acc @ [length hp])"
    using l by (simp add: list_at_def)
  have len3: "length ?hp3 = Suc (length hp)" by simp
  note ih = Cons.IH [OF run la]
  have old3: "?hp3 ! q = hp ! q" if "q < length hp" "q \<noteq> l" for q
    using that by (simp add: nth_append)
  have new3: "?hp3 ! length hp = DictObj (d\<lparr>image_id := v\<rparr>)"
    using l by (simp add: nth_append)
  have dict3: "dict_at ?hp3 q = dict_at hp q" if "q < length hp" for q
  proof (cases "q = l")
    case True
    with Cons.prems(2) la l show ?thesis
      by (auto simp: dict_at_def list_at_def split: if_splits obj.splits)
  next
    case False
    with that old3 show ?thesis by (simp add: dict_at_def)
  qed
  have 1: "length hp' = length hp + length (r # rs)"
    using ih len3 by simp
  have 2: "\<forall>q < length hp. q \<noteq> l \<longrightarrow> hp' ! q = hp ! q"
    using ih len3 old3 by simp
  have "list_at hp' l = Some ((acc @ [length hp]) @ [length ?hp3 ..< length ?hp3 + length rs])"
    using ih by blast
  moreover have "[length hp ..< length hp + length (r # rs)] =
      length hp # [Suc (length hp) ..< Suc (length hp) + length rs]"
    using upt_shift [of "length hp" "length rs"] by simp
  ultimately have 3: "list_at hp' l = Some (acc @ [length hp ..< length hp + length (r # rs)])"
    by (simp only: len3 append_assoc append_Cons append_Nil)
  have 4: "\<forall>i < length (r # rs). (r # rs) ! i < length hp \<longrightarrow>
            dict_at hp' (length hp + i) =
            map_option (\<lambda>d. d\<lparr>image_id := v\<rparr>) (dict_at hp ((r # rs) ! i))"
  proof (intro allI impI)
    fix i assume i: "i < length (r # rs)" and b: "(r # rs) ! i < length hp"
    show "dict_at hp' (length hp + i) =
            map_option (\<lambda>d. d\<lparr>image_id := v\<rparr>) (dict_at hp ((r # rs) ! i))"
    proof (cases i)
      case 0
      have "hp' ! length hp = ?hp3 ! length hp"
        using ih l len3 by simp
      with new3 1 d 0 show ?thesis by (simp add: dict_at_def)
    next
      case (Suc j)
      with i b have j: "j < length rs" and bj: "rs ! j < length hp" by simp_all
      with ih len3 have "dict_at hp' (length ?hp3 + j) =
          map_option (\<lambda>d. d\<lparr>image_id := v\<rparr>) (dict_at ?hp3 (rs ! j))"
        by simp
      with Suc dict3 [OF bj] show ?thesis by simp
    qed
  qed
  from 1 2 3 4 show ?case by blast
qed


lemma dict_at_Some_bound: "dict_at hp r = Some d \<Longrightarrow> r < length hp"
  by (simp add: dict_at_def split: if_splits)

lemma update_loop_total:
  "list_at hp l = Some acc \<Longrightarrow> \<forall>r \<in> set rs. dict_at hp r \<noteq> None \<Longrightarrow>
   \<exists>hp'. update_loop hp l v rs = Some hp'"
proof (induction rs arbitrary: hp acc)
  case Nil
  then show ?case by simp
next
  case (Cons r rs)
  from Cons.prems(2) obtain d where d: "dict_at hp r = Some d" by auto
  let ?hp3 = "(hp @ [DictObj (d\<lparr>image_id := v\<rparr>)])[l := ListObj (acc @ [length hp])]"
  from Cons.prems(1) have l: "l < length hp" and hl: "hp ! l = ListObj acc"
    by (auto simp: list_at_def split: if_splits obj.splits)
  have la: "list_at ?hp3 l = Some (acc @ [length hp])"
    using l by (simp add: list_at_def)
  have "dict_at ?hp3 q \<noteq> None" if "q \<in> set rs" for q
  proof -
    from that Cons.prems(2) obtain e where e: "dict_at hp q = Some e" by auto
    then have q: "q < length hp" by (rule dict_at_Some_bound)
    with e hl have "q \<noteq> l" by (auto simp: dict_at_def)
    with q e show ?thesis by (simp add: dict_at_def nth_append)
  qed
  then have "\<forall>q \<in> set rs. dict_at ?hp3 q \<noteq> None" by blast
  from Cons.IH [OF la this] show ?case
    by (simp only: update_loop_Cons [OF d Cons.prems(1)])
qed

text \<open>
  Claim C10. \<open>add_noise_and_update_annotations\<close> does not mutate the annotation sequence it
  is given, nor its records. On a heap where \<open>anns\<close> is a list of references to
  dictionaries, lines 32-38 return; every object that existed keeps its value, so the list
  and each input record are as before; the list returned is a new object and its items are
  new, pairwise distinct objects: the input records with \<open>image_id\<close> replaced.
\<close>

theorem input_annotations_untouched:
  assumes "list_at hp anns = Some items" and "map (dict_at hp) items = map Some ds"
  shows "\<exists>new_items hp'.
           update_annotations_heap hp anns new_image_id = Some (length hp, hp') \<and>
           (\<forall>r < length hp. hp' ! r = hp ! r) \<and>
           list_at hp' anns = Some items \<and>
           map (dict_at hp') items = map Some ds \<and>
           list_at hp' (length hp) = Some new_items \<and>
           distinct new_items \<and> (\<forall>r \<in> set new_items. length hp < r) \<and>
           map (dict_at hp') new_items = map (\<lambda>a. Some (a\<lparr>image_id := new_image_id\<rparr>)) ds"
proof -
  let ?hp0 = "hp @ [ListObj []]"
  let ?n = "length hp"
  have len: "length ds = length items"
    using assms(2) by (metis length_map)
  have item: "dict_at hp (items ! i) = Some (ds ! i)" if "i < length items" for i
    using assms(2) that len by (metis nth_map)
  have bound: "items ! i < ?n" if "i < length items" for i
    using item [OF that] by (rule dict_at_Some_bound)
  have anns: "anns < ?n"
    using assms(1) by (auto simp: list_at_def split: if_splits)
  have l0: "list_at ?hp0 ?n = Some []"
    by (simp add: list_at_def)
  have d0: "dict_at ?hp0 q = dict_at hp q" if "q < ?n" for q
    using that by (simp add: dict_at_def nth_append)
  have "\<forall>r \<in> set items. dict_at ?hp0 r \<noteq> None"
  proof
    fix r assume "r \<in> set items"
    then obtain i where "i < length items" "r = items ! i" by (metis in_set_conv_nth)
    with item bound d0 show "dict_at ?hp0 r \<noteq> None" by simp
  qed
  from update_loop_total [OF l0 this]
  obtain hp' where run: "update_loop ?hp0 ?n new_image_id items = Some hp'" by blast
  note inv = update_loop_inv [OF run l0]
  let ?new = "[Suc ?n ..< Suc ?n + length items]"
  have res: "update_annotations_heap hp anns new_image_id = Some (?n, hp')"
    using assms(1) run by (simp add: update_annotations_heap_def heap_alloc_def)
  have len': "length hp' = Suc ?n + length items"
    using inv by simp
  have frame: "hp' ! r = hp ! r" if "r < ?n" for r
  proof -
    from inv that have "hp' ! r = ?hp0 ! r" by simp
    with that show ?thesis by (simp add: nth_append)
  qed
  have la: "list_at hp' anns = Some items"
    using assms(1) anns frame [OF anns] len' by (simp add: list_at_def split: if_splits)
  have da: "map (dict_at hp') items = map Some ds"
  proof (rule nth_equalityI)
    show "length (map (dict_at hp') items) = length (map Some ds)" by (simp add: len)
    fix i assume "i < length (map (dict_at hp') items)"
    then have i: "i < length items" by simp
    have "dict_at hp' (items ! i) = dict_at hp (items ! i)"
      using bound [OF i] frame [OF bound [OF i]] len' by (simp add: dict_at_def)
    with item [OF i] i len show "map (dict_at hp') items ! i = map Some ds ! i" by simp
  qed
  have ln: "list_at hp' ?n = Some ?new"
    using inv by (simp del: upt_Suc)
  have fresh: "\<forall>r \<in> set ?new. ?n < r" by auto
  have dn: "map (dict_at hp') ?new = map (\<lambda>a. Some (a\<lparr>image_id := new_image_id\<rparr>)) ds"
  proof (rule nth_equalityI)
    show "length (map (dict_at hp') ?new) =
          length (map (\<lambda>a. Some (a\<lparr>image_id := new_image_id\<rparr>)) ds)"
      by (simp add: len del: upt_Suc)
    fix i assume "i < length (map (dict_at hp') ?new)"
    then have i: "i < length items" by (simp del: upt_Suc)
    from inv i bound [OF i] have "dict_at hp' (length ?hp0 + i) =
        map_option (\<lambda>d. d\<lparr>image_id := new_image_id\<rparr>) (dict_at ?hp0 (items ! i))"
      by simp
    with d0 [OF bound [OF i]] item [OF i] have "dict_at hp' (Suc ?n + i) =
        Some ((ds ! i)\<lparr>image_id := new_image_id\<rparr>)"
      by simp
    with i len show "map (dict_at hp') ?new ! i =
        map (\<lambda>a. Some (a\<lparr>image_id := new_image_id\<rparr>)) ds ! i"
      by (simp del: upt_Suc)
  qed
  from res frame la da ln fresh dn show ?thesis
    by (intro exI [of _ ?new] exI [of _ hp']) (simp del: upt_Suc)
qed

theorem input_annotations_untouched_witness:
  "list_at demo_heap 2 = Some [0, 1]
   \<and> map (dict_at demo_heap) [0, 1] =
       map Some [\<lparr>image_id = 1, \<dots> = [0, 0, 10, 10]\<rparr>, \<lparr>image_id = 1, \<dots> = [3, 4, 5, 6]\<rparr>]
   \<and> update_annotations_heap demo_heap 2 4200001 =
       Some (3, demo_heap @
                [ListObj [4, 5],
                 DictObj \<lparr>image_id = 4200001, \<dots> = [0, 0, 10, 10]\<rparr>,
                 DictObj \<lparr>image_id = 4200001, \<dots> = [3, 4, 5, 6]\<rparr>])
   \<and> (\<exists>new_items hp'.
         update_annotations_heap demo_heap 2 4200001 = Some (length demo_heap, hp') \<and>
         list_at hp' 2 = Some [0, 1] \<and>
         list_at hp' (length demo_heap) = Some new_items \<and> distinct new_items)"
proof -
  have h1: "list_at demo_heap 2 = Some [0, 1]"
    by code_simp
  have h2: "map (dict_at demo_heap) [0, 1] =
       map Some [\<lparr>image_id = 1, \<dots> = [0, 0, 10, 10]\<rparr>, \<lparr>image_id = 1, \<dots> = [3, 4, 5, 6]\<rparr>]"
    by code_simp
  have e: "update_annotations_heap demo_heap 2 4200001 =
       Some (3, demo_heap @
                [ListObj [4, 5],
                 DictObj \<lparr>image_id = 4200001, \<dots> = [0, 0, 10, 10]\<rparr>,
                 DictObj \<lparr>image_id = 4200001, \<dots> = [3, 4, 5, 6]\<rparr>])"
    by code_simp
  from input_annotations_untouched [OF h1 h2, of 4200001]
  have "\<exists>new_items hp'.
         update_annotations_heap demo_heap 2 4200001 = Some (length demo_heap, hp') \<and>
         list_at hp' 2 = Some [0, 1] \<and>
         list_at hp' (length demo_heap) = Some new_items \<and> distinct new_items"
    by blast
  with h1 h2 e show ?thesis by blast
qed

section \<open>Names and paths on a POSIX host\<close>

lemma rfind_ge: "- 1 \<le> rfind c s"
  by (induction s) (auto simp: Let_def)

lemma rfind_notin: "c \<notin> set s \<Longrightarrow> rfind c s = - 1"
  by (induction s) (auto simp: Let_def)

lemma rfind_drop_notin: "c \<notin> set (drop (nat (rfind c s + 1)) s)"
proof (induction s)
  case Nil
  then show ?case by simp
next
  case (Cons x xs)
  show ?case
  proof (cases "0 \<le> rfind c xs")
    case True
    then have "nat (rfind c (x # xs) + 1) = Suc (nat (rfind c xs + 1))"
      by (simp add: Let_def nat_add_distrib)
    with Cons show ?thesis by simp
  next
    case False
    with rfind_ge [of c xs] have r: "rfind c xs = - 1" by simp
    with Cons have "c \<notin> set xs" by simp
    with r show ?thesis by (simp add: Let_def)
  qed
qed

lemma rfind_append_notin: "c \<notin> set ys \<Longrightarrow> rfind c (xs @ c # ys) = int (length xs)"
  by (induction xs) (simp_all add: Let_def rfind_notin)

lemma basename_no_sep: "CHR ''/'' \<notin> set (posix_basename p)"
  by (simp add: posix_basename_def slice_from_def rfind_drop_notin)

lemma basename_append: "CHR ''/'' \<notin> set name \<Longrightarrow> posix_basename (d @ ''/'' @ name) = name"
proof -
  assume "CHR ''/'' \<notin> set name"
  then have "rfind CHR ''/'' (d @ ''/'' @ name) = int (length d)"
    using rfind_append_notin [of "CHR ''/''" name d] by simp
  moreover have "nat (int (length d) + 1) = Suc (length d)" by simp
  ultimately show ?thesis
    by (simp add: posix_basename_def slice_from_def)
qed

lemma splitext_fst_set: "set (fst (posix_splitext p)) \<subseteq> set p"
  by (auto simp: posix_splitext_def slice_to_def Let_def dest: in_set_takeD)

lemma last_two_suffix: "suffix (last_two s) s"
  by (simp add: last_two_def suffix_drop)

lemma last_two_length: "length (last_two s) = min 2 (length s)"
  by (simp add: last_two_def)

lemma last_two_set: "set (last_two s) \<subseteq> set s"
  using last_two_suffix [of s] by (rule set_mono_suffix)

lemma stem_no_sep: "CHR ''/'' \<notin> set (fst (posix_splitext (posix_basename p)))"
  using splitext_fst_set [of "posix_basename p"] basename_no_sep [of p] by blast

lemma tag_no_sep: "CHR ''/'' \<notin> set (last_two (fst (posix_splitext (posix_basename p))))"
  using last_two_set stem_no_sep by blast

lemma endswith_sep_append: "ys \<noteq> [] \<Longrightarrow> endswith_sep (xs @ ys) = endswith_sep ys"
  by (cases ys rule: rev_cases) (simp_all add: endswith_sep_def)

lemma endswith_sep_last: "endswith_sep p \<longleftrightarrow> p \<noteq> [] \<and> last p = CHR ''/''"
  by (cases p rule: rev_cases) (simp_all add: endswith_sep_def)

lemma startswith_sep_hd: "startswith_sep p \<longleftrightarrow> p \<noteq> [] \<and> hd p = CHR ''/''"
  by (cases p) (simp_all add: startswith_sep_def)

lemma posix_join_one:
  "\<not> startswith_sep x \<Longrightarrow>
   posix_join d [x] = (if d = [] \<or> endswith_sep d then d @ x else d @ ''/'' @ x)"
  by (simp add: posix_join_def posix_join_step_def)

lemma posix_join_slash:
  "\<not> startswith_sep x \<Longrightarrow> d \<noteq> [] \<Longrightarrow> \<not> endswith_sep d \<Longrightarrow> posix_join d [x] = d @ ''/'' @ x"
  by (simp add: posix_join_one)

lemma posix_join_end: "\<not> startswith_sep x \<Longrightarrow> x \<noteq> [] \<Longrightarrow> \<not> endswith_sep x \<Longrightarrow>
   posix_join d [x] \<noteq> [] \<and> \<not> endswith_sep (posix_join d [x])"
  using endswith_sep_append [of x "d @ ''/''"] endswith_sep_append [of x d]
  by (auto simp: posix_join_one)


lemma images_component:
  assumes "CHR ''/'' \<notin> set tag"
  shows "\<not> startswith_sep (''images_'' @ tag)"
    and "\<not> endswith_sep (''images_'' @ tag)"
proof -
  show "\<not> startswith_sep (''images_'' @ tag)"
    by (simp add: startswith_sep_def)
  show "\<not> endswith_sep (''images_'' @ tag)"
  proof (cases tag rule: rev_cases)
    case Nil
    then show ?thesis by (simp add: endswith_sep_def)
  next
    case (snoc ys y)
    with assms show ?thesis by (auto simp: endswith_sep_last)
  qed
qed

lemma images_subdir_posix:
  "images_subdir posixpath jp od =
   posix_join od [''images_'' @ last_two (fst (posix_splitext (posix_basename jp)))]"
  by (simp add: images_subdir_def last_two_letters_def posixpath_def)

lemma new_coco_json_path_posix:
  "new_coco_json_path posixpath jp od =
   posix_join od [''augmented_noise_'' @ last_two (fst (posix_splitext (posix_basename jp))) @
                  ''.json'']"
  by (simp add: new_coco_json_path_def last_two_letters_def posixpath_def)

lemma noisy_path_of_posix:
  "noisy_path_of posixpath jp od fname =
   posix_join od [''images_'' @ last_two (fst (posix_splitext (posix_basename jp)))] @ ''/'' @
   fst (posix_splitext (posix_basename (source_image_path posixpath jp fname))) @
   ''_augmented_noise.png''"
proof -
  let ?tag = "last_two (fst (posix_splitext (posix_basename jp)))"
  let ?name = "fst (posix_splitext (posix_basename (source_image_path posixpath jp fname))) @
               ''_augmented_noise.png''"
  have n: "\<not> startswith_sep ?name"
    using stem_no_sep [of "source_image_path posixpath jp fname"]
    by (cases "fst (posix_splitext (posix_basename (source_image_path posixpath jp fname)))")
       (auto simp: startswith_sep_def)
  have "posix_join od [''images_'' @ ?tag] \<noteq> [] \<and>
        \<not> endswith_sep (posix_join od [''images_'' @ ?tag])"
    using images_component [OF tag_no_sep [of jp]] by (intro posix_join_end) simp_all
  then have "posix_join (posix_join od [''images_'' @ ?tag]) [?name] =
             posix_join od [''images_'' @ ?tag] @ ''/'' @ ?name"
    using n by (simp add: posix_join_slash)
  then show ?thesis
    by (simp add: noisy_path_of_def images_subdir_posix) (simp add: posixpath_def)
qed

lemma noisy_basename_posix:
  "posix_basename (noisy_path_of posixpath jp od fname) =
   fst (posix_splitext (posix_basename (source_image_path posixpath jp fname))) @
   ''_augmented_noise.png''"
proof -
  have "CHR ''/'' \<notin> set (fst (posix_splitext (posix_basename
          (source_image_path posixpath jp fname))) @ ''_augmented_noise.png'')"
    using stem_no_sep [of "source_image_path posixpath jp fname"] by simp
  from basename_append [OF this] show ?thesis
    by (simp only: noisy_path_of_posix)
qed

lemma add_noise_saves:
  assumes "add_noise_and_update_annotations os io image_path anns output_dir new_image_id
             noise_factor s = Inr ((Some p, updated), s')"
  shows "\<exists>a w1. image_save io w1 p a = Inr (world s')"
proof -
  from assms obtain a w1 w2 where "image_save io w1 p a = Inr w2" and "s' = s\<lparr>world := w2\<rparr>"
    by (auto simp: add_noise_and_update_annotations_def Let_def
             split: sum.splits prod.splits dest!: except_cases)
  then have "image_save io w1 p a = Inr (world s')" by simp
  then show ?thesis by blast
qed

lemma augment_writes:
  assumes "augment_coco_dataset os io jp od nf s0 = Inr s2"
  shows "\<exists>s1 c. augment_output os io jp od nf s0 = Inr (s1, new_coco_json_path os jp od, c) \<and>
                json_dump io (world s1) (new_coco_json_path os jp od) c = Inr (world s2) \<and>
                stdout s2 = stdout s1"
proof -
  from assms obtain s1 path c w where
      o: "augment_output os io jp od nf s0 = Inr (s1, path, c)"
      and d: "json_dump io (world s1) path c = Inr w" and s2: "s2 = s1\<lparr>world := w\<rparr>"
    by (auto simp: augment_coco_dataset_def split: sum.splits prod.splits)
  from o have "path = new_coco_json_path os jp od"
    by (auto simp: augment_output_def split: sum.splits prod.splits)
  with o d s2 show ?thesis by simp
qed

lemma demo_written:
  "written (augment_coco_dataset posixpath fs_io ''data/frames_DK.json'' ''out'' 20 demo_start)
     ''out/augmented_noise_DK.json'' = Some (AugmentedJson demo_out)
   \<and> written (augment_coco_dataset posixpath fs_io ''data/frames_DK.json'' ''out'' 20 demo_start)
     ''out/images_DK/a_augmented_noise.png'' = Some (ImageFile \<lparr>shape = [1, 2], data = [44, 107]\<rparr>)"
  by code_simp

lemma demo_augment:
  "map_sum id stdout
     (augment_coco_dataset posixpath fs_io ''data/frames_DK.json'' ''out'' 20 demo_start) =
   Inr [''File not found: data/images_DK/b.png. Skipping this image.'',
        ''Removing annotations for image ID: 2'']"
  by code_simp

text \<open>
  Claim C7. The tag is the last two characters of the stem of the input file's name (the
  whole stem when it is shorter); every noisy image is saved in the directory
  \<open>images_<tag>\<close> under \<open>output_dir\<close>, under the stem of the source image's name followed by
  \<^verbatim>\<open>_augmented_noise.png\<close>; the annotation set is written to \<open>augmented_noise_<tag>.json\<close>
  under \<open>output_dir\<close>. "Under" is \<^verbatim>\<open>os.path.join\<close>: a slash is put between the two unless
  \<open>output_dir\<close> is empty or ends with one.
\<close>

theorem output_naming:
  assumes "tag = last_two (fst (posix_splitext (posix_basename coco_json_path)))"
      and "stem = fst (posix_splitext (posix_basename
                         (source_image_path posixpath coco_json_path fname)))"
      and "subdir = posix_join output_dir [''images_'' @ tag]"
      and "json_path = posix_join output_dir [''augmented_noise_'' @ tag @ ''.json'']"
  shows "suffix tag (fst (posix_splitext (posix_basename coco_json_path)))
       \<and> length tag = min 2 (length (fst (posix_splitext (posix_basename coco_json_path))))
       \<and> images_subdir posixpath coco_json_path output_dir = subdir
       \<and> new_coco_json_path posixpath coco_json_path output_dir = json_path
       \<and> (output_dir \<noteq> [] \<and> \<not> endswith_sep output_dir \<longrightarrow>
            subdir = output_dir @ ''/images_'' @ tag \<and>
            json_path = output_dir @ ''/augmented_noise_'' @ tag @ ''.json'')
       \<and> noisy_path_of posixpath coco_json_path output_dir fname =
            subdir @ ''/'' @ stem @ ''_augmented_noise.png''
       \<and> file_name (noisy_image_info posixpath coco_json_path output_dir
                       (im\<lparr>file_name := fname\<rparr>)) =
            ''images'' @ [backslash] @ stem @ ''_augmented_noise.png''
       \<and> (inject_image posixpath io coco_json_path output_dir nf anns (im\<lparr>file_name := fname\<rparr>) s =
              Inr ((Some p, updated), s') \<longrightarrow>
            p = subdir @ ''/'' @ stem @ ''_augmented_noise.png'' \<and>
            (\<exists>a w1. image_save io w1 p a = Inr (world s')))
       \<and> (augment_coco_dataset posixpath io coco_json_path output_dir nf s0 = Inr s2 \<longrightarrow>
            (\<exists>s1 c. augment_output posixpath io coco_json_path output_dir nf s0 =
                      Inr (s1, json_path, c) \<and>
                    json_dump io (world s1) json_path c = Inr (world s2)))"
proof (intro conjI impI)
  show "suffix tag (fst (posix_splitext (posix_basename coco_json_path)))"
    by (simp add: assms(1) last_two_suffix)
  show "length tag = min 2 (length (fst (posix_splitext (posix_basename coco_json_path))))"
    by (simp add: assms(1) last_two_length)
  show "images_subdir posixpath coco_json_path output_dir = subdir"
    by (simp add: assms(1,3) images_subdir_posix)
  show "new_coco_json_path posixpath coco_json_path output_dir = json_path"
    by (simp add: assms(1,4) new_coco_json_path_posix)
  show np: "noisy_path_of posixpath coco_json_path output_dir fname =
            subdir @ ''/'' @ stem @ ''_augmented_noise.png''"
    by (simp add: assms(1,2,3) noisy_path_of_posix)
  show "file_name (noisy_image_info posixpath coco_json_path output_dir (im\<lparr>file_name := fname\<rparr>)) =
            ''images'' @ [backslash] @ stem @ ''_augmented_noise.png''"
    using noisy_basename_posix [of coco_json_path output_dir fname]
    by (simp add: noisy_image_info_def assms(2)) (simp add: posixpath_def)
next
  assume od: "output_dir \<noteq> [] \<and> \<not> endswith_sep output_dir"
  have t: "CHR ''/'' \<notin> set tag"
    by (simp add: assms(1) tag_no_sep)
  show "subdir = output_dir @ ''/images_'' @ tag"
    using od images_component(1) [OF t] by (simp add: assms(3) posix_join_slash)
  have "\<not> startswith_sep (''augmented_noise_'' @ tag @ ''.json'')"
    by (simp add: startswith_sep_def)
  with od show "json_path = output_dir @ ''/augmented_noise_'' @ tag @ ''.json''"
    by (simp add: assms(4) posix_join_slash)
next
  assume inj: "inject_image posixpath io coco_json_path output_dir nf anns
                 (im\<lparr>file_name := fname\<rparr>) s = Inr ((Some p, updated), s')"
  from inject_image_Some(2) [OF inj]
  show "p = subdir @ ''/'' @ stem @ ''_augmented_noise.png''"
    by (simp add: assms(1,2,3) noisy_path_of_posix)
  from inj show "\<exists>a w1. image_save io w1 p a = Inr (world s')"
    unfolding inject_image_def Let_def by (rule add_noise_saves)
next
  assume "augment_coco_dataset posixpath io coco_json_path output_dir nf s0 = Inr s2"
  from augment_writes [OF this]
  show "\<exists>s1 c. augment_output posixpath io coco_json_path output_dir nf s0 =
                  Inr (s1, json_path, c) \<and>
                json_dump io (world s1) json_path c = Inr (world s2)"
    by (auto simp: assms(1,4) new_coco_json_path_posix)
qed


theorem output_naming_witness:
  "last_two (fst (posix_splitext (posix_basename ''data/frames_DK.json''))) = ''DK''
   \<and> fst (posix_splitext (posix_basename
        (source_image_path posixpath ''data/frames_DK.json'' ''images/a.png''))) = ''a''
   \<and> images_subdir posixpath ''data/frames_DK.json'' ''out'' = ''out/images_DK''
   \<and> new_coco_json_path posixpath ''data/frames_DK.json'' ''out'' = ''out/augmented_noise_DK.json''
   \<and> noisy_path_of posixpath ''data/frames_DK.json'' ''out'' ''images/a.png'' =
       ''out/images_DK/a_augmented_noise.png''
   \<and> (\<exists>s' a w1.
         inject_image posixpath fs_io ''data/frames_DK.json'' ''out'' 20 (annotations demo_set)
           (hd (images demo_set)) demo_loop_start =
           Inr ((Some ''out/images_DK/a_augmented_noise.png'',
                 [\<lparr>image_id = 4200001, \<dots> = [0, 0, 10, 10]\<rparr>,
                  \<lparr>image_id = 4200001, \<dots> = [3, 4, 5, 6]\<rparr>]), s') \<and>
         image_save fs_io w1 ''out/images_DK/a_augmented_noise.png'' a = Inr (world s'))
   \<and> (\<exists>s1 s2.
         augment_coco_dataset posixpath fs_io ''data/frames_DK.json'' ''out'' 20 demo_start =
           Inr s2 \<and>
         augment_output posixpath fs_io ''data/frames_DK.json'' ''out'' 20 demo_start =
           Inr (s1, ''out/augmented_noise_DK.json'', demo_out) \<and>
         json_dump fs_io (world s1) ''out/augmented_noise_DK.json'' demo_out = Inr (world s2))
   \<and> written (augment_coco_dataset posixpath fs_io ''data/frames_DK.json'' ''out'' 20 demo_start)
       ''out/images_DK/a_augmented_noise.png'' = Some (ImageFile \<lparr>shape = [1, 2], data = [44, 107]\<rparr>)
   \<and> written (augment_coco_dataset posixpath fs_io ''data/frames_DK.json'' ''out'' 20 demo_start)
       ''out/augmented_noise_DK.json'' = Some (AugmentedJson demo_out)"
proof -
  let ?im = "hd (images demo_set)"
  let ?upd = "[\<lparr>image_id = 4200001, \<dots> = [0, 0, 10, 10]\<rparr>,
               \<lparr>image_id = 4200001, \<dots> = [3, 4, 5, 6 :: int]\<rparr>]"
  have tag: "''DK'' = last_two (fst (posix_splitext (posix_basename ''data/frames_DK.json'')))"
    by code_simp
  have stem: "''a'' = fst (posix_splitext (posix_basename
        (source_image_path posixpath ''data/frames_DK.json'' ''images/a.png'')))"
    by code_simp
  have subdir: "''out/images_DK'' = posix_join ''out'' [''images_'' @ ''DK'']"
    by code_simp
  have jpath: "''out/augmented_noise_DK.json'' =
      posix_join ''out'' [''augmented_noise_'' @ ''DK'' @ ''.json'']"
    by code_simp
  have im: "?im\<lparr>file_name := ''images/a.png''\<rparr> = ?im"
    by (simp add: demo_set_def)
  obtain s' where inj: "inject_image posixpath fs_io ''data/frames_DK.json'' ''out'' 20
      (annotations demo_set) (?im\<lparr>file_name := ''images/a.png''\<rparr>) demo_loop_start =
      Inr ((Some ''out/images_DK/a_augmented_noise.png'', ?upd), s')"
    using observe_inject_Inr [OF demo_inject_a] im by auto
  obtain s2 where aug: "augment_coco_dataset posixpath fs_io ''data/frames_DK.json'' ''out'' 20
      demo_start = Inr s2"
    using demo_augment
    by (cases "augment_coco_dataset posixpath fs_io ''data/frames_DK.json'' ''out'' 20 demo_start")
       auto
  note t = output_naming [OF tag stem subdir jpath, where im = ?im and io = fs_io and nf = 20
      and anns = "annotations demo_set" and s = demo_loop_start
      and p = "''out/images_DK/a_augmented_noise.png''" and updated = ?upd and s' = s'
      and ?s0.0 = demo_start and ?s2.0 = s2]
  from t inj obtain a w1 where sv:
      "image_save fs_io w1 ''out/images_DK/a_augmented_noise.png'' a = Inr (world s')"
    by blast
  from inj im have inj': "inject_image posixpath fs_io ''data/frames_DK.json'' ''out'' 20
      (annotations demo_set) ?im demo_loop_start =
      Inr ((Some ''out/images_DK/a_augmented_noise.png'', ?upd), s')"
    by simp
  have 1: "\<exists>s' a w1.
         inject_image posixpath fs_io ''data/frames_DK.json'' ''out'' 20 (annotations demo_set)
           ?im demo_loop_start = Inr ((Some ''out/images_DK/a_augmented_noise.png'', ?upd), s') \<and>
         image_save fs_io w1 ''out/images_DK/a_augmented_noise.png'' a = Inr (world s')"
    using inj' sv
    by (intro exI [of _ s'] exI [of _ a] exI [of _ w1]) simp
  from t aug have "\<exists>s1 c. augment_output posixpath fs_io ''data/frames_DK.json'' ''out'' 20
      demo_start = Inr (s1, ''out/augmented_noise_DK.json'', c) \<and>
      json_dump fs_io (world s1) ''out/augmented_noise_DK.json'' c = Inr (world s2)"
    by (elim conjE) (erule mp)
  then obtain s1 c where out: "augment_output posixpath fs_io ''data/frames_DK.json'' ''out'' 20
      demo_start = Inr (s1, ''out/augmented_noise_DK.json'', c)"
    and dump: "json_dump fs_io (world s1) ''out/augmented_noise_DK.json'' c = Inr (world s2)"
    by (elim exE conjE) (rule that)
  from out demo_run have c: "c = demo_out"
    by (simp add: observe_def)
  have 2: "\<exists>s1 s2.
         augment_coco_dataset posixpath fs_io ''data/frames_DK.json'' ''out'' 20 demo_start =
           Inr s2 \<and>
         augment_output posixpath fs_io ''data/frames_DK.json'' ''out'' 20 demo_start =
           Inr (s1, ''out/augmented_noise_DK.json'', demo_out) \<and>
         json_dump fs_io (world s1) ''out/augmented_noise_DK.json'' demo_out = Inr (world s2)"
    using aug dump out c by (intro exI [of _ s1] exI [of _ s2]) simp
  from t tag stem have 3: "images_subdir posixpath ''data/frames_DK.json'' ''out'' = ''out/images_DK''
     \<and> new_coco_json_path posixpath ''data/frames_DK.json'' ''out'' = ''out/augmented_noise_DK.json''
     \<and> noisy_path_of posixpath ''data/frames_DK.json'' ''out'' ''images/a.png'' =
       ''out/images_DK/a_augmented_noise.png''"
    by simp
  from 1 2 3 tag stem demo_written show ?thesis
    by (simp only: simp_thms)
qed

section \<open>The path of a source image\<close>

lemma split_sep_nonempty: "split_sep p \<noteq> []"
  by (induction p) (auto split: list.splits)

lemma join_split: "join_sep (split_sep p) = p"
proof (induction p)
  case Nil
  then show ?case by simp
next
  case (Cons c cs)
  obtain w ws where s: "split_sep cs = w # ws"
    using split_sep_nonempty [of cs] by (cases "split_sep cs") auto
  with Cons show ?case
    by (cases ws) auto
qed

lemma split_hd_empty:
  "split_sep p = c # cs \<Longrightarrow> c = [] \<longleftrightarrow> p = [] \<or> startswith_sep p"
  by (cases p) (auto simp: startswith_sep_def split: list.splits if_splits)

lemma loop_plain:
  "list_all plain_component comps \<Longrightarrow> normpath_loop ini acc comps = acc @ comps"
  by (induction comps arbitrary: acc) (auto simp: plain_component_def)

lemma join_sep_Cons_empty: "cs \<noteq> [] \<Longrightarrow> join_sep ([] # cs) = ''/'' @ join_sep cs"
  by (cases cs) auto

lemma normpath_normal:
  assumes "normal_path p"
  shows "posix_normpath p = p"
proof -
  obtain c cs where s: "split_sep p = c # cs"
    using split_sep_nonempty [of p] by (cases "split_sep p") auto
  have ne: "p \<noteq> []"
    using assms by (auto simp: normal_path_def)
  show ?thesis
  proof (cases "c = []")
    case True
    with assms s have cs: "cs \<noteq> []" "list_all plain_component cs" and ini: "initial_slashes p = 1"
      by (auto simp: normal_path_def)
    have "normpath_loop 1 [] (split_sep p) = cs"
      using True s loop_plain [OF cs(2), of 1 "[]"] by simp
    moreover have "p = ''/'' @ join_sep cs"
      using join_split [of p] s True join_sep_Cons_empty [OF cs(1)] by simp
    ultimately show ?thesis
      using ne ini by (simp add: posix_normpath_def)
  next
    case False
    with assms s have pl: "list_all plain_component (c # cs)"
      by (auto simp: normal_path_def)
    from False split_hd_empty [OF s] have "\<not> startswith_sep p" by simp
    then have ini: "initial_slashes p = 0" by (simp add: initial_slashes_def)
    have "normpath_loop 0 [] (split_sep p) = split_sep p"
      using s loop_plain [OF pl, of 0 "[]"] by simp
    then show ?thesis
      using ne ini join_split [of p] by (simp add: posix_normpath_def)
  qed
qed

lemma replace_char_notin: "a \<noteq> b \<Longrightarrow> a \<notin> set (replace_char a b s)"
  by (auto simp: replace_char_def)


lemma source_image_path_posix:
  assumes "posix_dirname jp \<noteq> []" and "\<not> endswith_sep (posix_dirname jp)"
      and "\<not> startswith_sep (drop 7 fname)"
      and "normal_path (posix_dirname jp @ ''/images_'' @
             last_two (fst (posix_splitext (posix_basename jp))) @ ''/'' @ drop 7 fname)"
  shows "source_image_path posixpath jp fname =
         replace_char backslash CHR ''/''
           (posix_dirname jp @ ''/images_'' @
            last_two (fst (posix_splitext (posix_basename jp))) @ ''/'' @ drop 7 fname)"
proof -
  let ?d = "posix_dirname jp"
  let ?c = "''images_'' @ last_two (fst (posix_splitext (posix_basename jp)))"
  let ?r = "drop 7 fname"
  have c: "\<not> startswith_sep ?c" "\<not> endswith_sep ?c"
    using images_component [OF tag_no_sep [of jp]] by simp_all
  have 1: "posix_join_step ?d ?c = ?d @ ''/'' @ ?c"
    using assms(1,2) c(1) by (simp add: posix_join_step_def)
  have "\<not> endswith_sep (?d @ ''/'' @ ?c)"
    using c(2) endswith_sep_append [of ?c "?d @ ''/''"] by simp
  then have 2: "posix_join_step (?d @ ''/'' @ ?c) ?r = (?d @ ''/'' @ ?c) @ ''/'' @ ?r"
    using assms(3) by (simp add: posix_join_step_def)
  have "posix_join ?d [?c, ?r] = (?d @ ''/'' @ ?c) @ ''/'' @ ?r"
    by (simp only: posix_join_def foldl.simps 1 2)
  then have "posix_join ?d [?c, ?r] = ?d @ ''/images_'' @
          last_two (fst (posix_splitext (posix_basename jp))) @ ''/'' @ ?r"
    by simp
  with normpath_normal [OF assms(4)] show ?thesis
    by (simp add: source_image_path_def last_two_letters_def slice_from_def)
       (simp add: posixpath_def)
qed

lemma source_image_path_stated:
  assumes "normal_path (posix_join (posix_dirname jp)
             [''images_'' @ last_two (fst (posix_splitext (posix_basename jp))), drop 7 fname])"
  shows "source_image_path posixpath jp fname = stated_source_image_path jp fname"
  using normpath_normal [OF assms]
  by (simp add: source_image_path_def stated_source_image_path_def last_two_letters_def
        slice_from_def)
     (simp add: posixpath_def)

text \<open>
  Claim C8, as amended. The source image path is the join of the directory of the input
  file, the component \<open>images_<tag>\<close> and the record's \<open>file_name\<close> without its first 7
  characters, normalised by \<^verbatim>\<open>os.path.normpath\<close> (which drops empty and \<^verbatim>\<open>.\<close> components
  and resolves \<^verbatim>\<open>..\<close>), with every backslash then replaced by a slash: on any host the
  result holds no backslash. On a POSIX host, when the joined path is already normal, the
  result is the path as the claim states it; when moreover the directory is not empty, it
  is the directory, \<open>/images_<tag>/\<close> and the rest of the file name, with slashes for
  backslashes. As stated, without the normalisation, the claim fails for an input file
  given as \<^verbatim>\<open>./frames_DK.json\<close>.
\<close>

theorem source_path_resolution:
  assumes "d = posix_dirname coco_json_path"
      and "tag = last_two (fst (posix_splitext (posix_basename coco_json_path)))"
      and "rest = drop 7 fname"
  shows "source_image_path os coco_json_path fname =
           replace_char backslash CHR ''/''
             (path_normpath os
                (path_join os (path_dirname os coco_json_path)
                   [''images_'' @ last_two (fst (path_splitext os
                                                  (path_basename os coco_json_path))),
                    drop 7 fname]))
       \<and> backslash \<notin> set (source_image_path os coco_json_path fname)
       \<and> (normal_path (posix_join d [''images_'' @ tag, rest]) \<longrightarrow>
            source_image_path posixpath coco_json_path fname =
              stated_source_image_path coco_json_path fname)
       \<and> (d \<noteq> [] \<and> \<not> endswith_sep d \<and> \<not> startswith_sep rest \<and>
            normal_path (d @ ''/images_'' @ tag @ ''/'' @ rest) \<longrightarrow>
            source_image_path posixpath coco_json_path fname =
              replace_char backslash CHR ''/'' (d @ ''/images_'' @ tag @ ''/'' @ rest))"
proof (intro conjI impI)
  show "source_image_path os coco_json_path fname =
           replace_char backslash CHR ''/''
             (path_normpath os
                (path_join os (path_dirname os coco_json_path)
                   [''images_'' @ last_two (fst (path_splitext os
                                                  (path_basename os coco_json_path))),
                    drop 7 fname]))"
    by (simp add: source_image_path_def last_two_letters_def slice_from_def)
  show "backslash \<notin> set (source_image_path os coco_json_path fname)"
    unfolding source_image_path_def
    by (rule replace_char_notin) (simp add: backslash_def)
next
  assume "normal_path (posix_join d [''images_'' @ tag, rest])"
  then show "source_image_path posixpath coco_json_path fname =
              stated_source_image_path coco_json_path fname"
    unfolding assms by (rule source_image_path_stated)
next
  assume "d \<noteq> [] \<and> \<not> endswith_sep d \<and> \<not> startswith_sep rest \<and>
          normal_path (d @ ''/images_'' @ tag @ ''/'' @ rest)"
  then show "source_image_path posixpath coco_json_path fname =
              replace_char backslash CHR ''/'' (d @ ''/images_'' @ tag @ ''/'' @ rest)"
    unfolding assms by (intro source_image_path_posix) simp_all
qed

theorem source_path_resolution_witness:
  "posix_dirname ''data/frames_DK.json'' = ''data''
   \<and> last_two (fst (posix_splitext (posix_basename ''data/frames_DK.json''))) = ''DK''
   \<and> drop 7 (''images'' @ [backslash] @ ''sub'' @ [backslash] @ ''a.png'') =
       ''sub'' @ [backslash] @ ''a.png''
   \<and> normal_path (''data'' @ ''/images_'' @ ''DK'' @ ''/'' @ ''sub'' @ [backslash] @ ''a.png'')
   \<and> source_image_path posixpath ''data/frames_DK.json''
         (''images'' @ [backslash] @ ''sub'' @ [backslash] @ ''a.png'') =
       ''data/images_DK/sub/a.png''
   \<and> stated_source_image_path ''data/frames_DK.json''
         (''images'' @ [backslash] @ ''sub'' @ [backslash] @ ''a.png'') =
       ''data/images_DK/sub/a.png''
   \<and> backslash \<notin> set (source_image_path posixpath ''data/frames_DK.json''
         (''images'' @ [backslash] @ ''sub'' @ [backslash] @ ''a.png''))"
proof -
  let ?f = "''images'' @ [backslash] @ ''sub'' @ [backslash] @ ''a.png''"
  have d: "''data'' = posix_dirname ''data/frames_DK.json''"
    by code_simp
  have tag: "''DK'' = last_two (fst (posix_splitext (posix_basename ''data/frames_DK.json'')))"
    by code_simp
  have rest: "''sub'' @ [backslash] @ ''a.png'' = drop 7 ?f"
    by simp
  have n: "normal_path (''data'' @ ''/images_'' @ ''DK'' @ ''/'' @ ''sub'' @ [backslash] @ ''a.png'')"
    by code_simp
  have h: "''data'' \<noteq> [] \<and> \<not> endswith_sep ''data'' \<and>
           \<not> startswith_sep (''sub'' @ [backslash] @ ''a.png'') \<and>
           normal_path (''data'' @ ''/images_'' @ ''DK'' @ ''/'' @ ''sub'' @ [backslash] @ ''a.png'')"
    using n by (simp add: endswith_sep_def startswith_sep_def)
  have r: "replace_char backslash CHR ''/''
             (''data'' @ ''/images_'' @ ''DK'' @ ''/'' @ ''sub'' @ [backslash] @ ''a.png'') =
           ''data/images_DK/sub/a.png''"
    by (simp add: replace_char_def backslash_def)
  note t = source_path_resolution [OF d tag rest, of posixpath]
  have n2: "normal_path (posix_join ''data''
      [''images_'' @ ''DK'', ''sub'' @ [backslash] @ ''a.png''])"
    by code_simp
  from t have "normal_path (posix_join ''data''
      [''images_'' @ ''DK'', ''sub'' @ [backslash] @ ''a.png'']) \<longrightarrow>
      source_image_path posixpath ''data/frames_DK.json'' ?f =
      stated_source_image_path ''data/frames_DK.json'' ?f"
    by (elim conjE)
  from this n2 have st: "source_image_path posixpath ''data/frames_DK.json'' ?f =
      stated_source_image_path ''data/frames_DK.json'' ?f"
    by (rule mp)
  from t have "''data'' \<noteq> [] \<and> \<not> endswith_sep ''data'' \<and>
           \<not> startswith_sep (''sub'' @ [backslash] @ ''a.png'') \<and>
           normal_path (''data'' @ ''/images_'' @ ''DK'' @ ''/'' @ ''sub'' @ [backslash] @ ''a.png'')
      \<longrightarrow> source_image_path posixpath ''data/frames_DK.json'' ?f =
      replace_char backslash CHR ''/''
        (''data'' @ ''/images_'' @ ''DK'' @ ''/'' @ ''sub'' @ [backslash] @ ''a.png'')"
    by (elim conjE)
  from this h have e: "source_image_path posixpath ''data/frames_DK.json'' ?f =
      replace_char backslash CHR ''/''
        (''data'' @ ''/images_'' @ ''DK'' @ ''/'' @ ''sub'' @ [backslash] @ ''a.png'')"
    by (rule mp)
  from t have b: "backslash \<notin> set (source_image_path posixpath ''data/frames_DK.json'' ?f)"
    by (elim conjE)
  from e r have v: "source_image_path posixpath ''data/frames_DK.json'' ?f =
      ''data/images_DK/sub/a.png''"
    by (simp only:)
  with st have "stated_source_image_path ''data/frames_DK.json'' ?f =
      ''data/images_DK/sub/a.png''"
    by (simp only:)
  with v b d [symmetric] tag [symmetric] rest [symmetric] n show ?thesis
    by (intro conjI)
qed

theorem source_path_resolution_counterexample:
  "source_image_path posixpath ''./frames_DK.json'' ''images/a.png'' = ''images_DK/a.png''
   \<and> stated_source_image_path ''./frames_DK.json'' ''images/a.png'' = ''./images_DK/a.png''"
  by code_simp

end
